theory Spec2Isabelle
  imports Main "HOL-Library.Sublist"
begin

section \<open>Values that cross the boundary to the environment\<close>

text \<open>
  Strings are \<^typ>\<open>string\<close>, read as the UTF-8 bytes of a well-formed JavaScript string.
  A JSON value is what \<open>JSON.parse\<close> produces: numbers are restricted to the integers, and
  an object lists each of its keys once.
\<close>

datatype json =
    JNull
  | JBool bool
  | JNum int
  | JStr string
  | JArr "json list"
  | JObj "(string \<times> json) list"

text \<open>
  A thrown value (the reason of a rejected promise) is either an \<open>Error\<close> object, kept as
  its class name and message, or any other value.
\<close>

datatype thrown =
    JsError string string
  | Value json

type_synonym 'a outcome = "thrown + 'a"

section \<open>The debug console store (\<open>useDebugConsole\<close>)\<close>

datatype LogLevel = ERROR | WARN | INFO | DEBUG | TRACE

record LogEntry =
  log_id :: int
  timestamp :: int
  level :: LogLevel
  target :: string
  message :: string
  log_fields :: "(string \<times> string) list"

text \<open>
  The store's state. \<open>unlistenFn\<close> is the function \<open>listen\<close> returned, identified here by
  the number of the registration it cancels.
\<close>

record DebugConsoleState =
  isOpen :: bool
  isEnabled :: bool
  logs :: "LogEntry list"
  filter_levels :: "LogLevel list"
  searchTerm :: string
  autoScroll :: bool
  unlistenFn :: "nat option"

definition MAX_LOGS :: nat where
  "MAX_LOGS = 5000"

definition initial_state :: DebugConsoleState where
  "initial_state =
     \<lparr>isOpen = False, isEnabled = False, logs = [], filter_levels = [ERROR, WARN, INFO],
      searchTerm = [], autoScroll = True, unlistenFn = None\<rparr>"

text \<open>
  Everything else the store's actions touch: the registrations alive on the
  \<open>log-event\<close> channel (every one of them carries the same callback, which calls
  \<open>addLog\<close>), the number the next registration gets, the commands handed to \<open>invoke\<close>
  so far, and the lines written with \<open>console.error\<close>.
\<close>

record world =
  store :: DebugConsoleState
  listeners :: "nat list"
  next_handle :: nat
  invoked :: "string list"
  console :: "string list"

definition initial_world :: world where
  "initial_world =
     \<lparr>store = initial_state, listeners = [], next_handle = 0, invoked = [], console = []\<rparr>"

text \<open>
  What the environment answers while one action runs: the result of each command the
  action may pass to \<open>invoke\<close>, and whether \<open>listen\<close> resolves. The results carry the
  types the store's code declares for them.
\<close>

record backend =
  enable_debug_console :: "unit outcome"
  disable_debug_console :: "unit outcome"
  get_debug_console_logs :: "LogEntry list outcome"
  clear_debug_console_logs :: "unit outcome"
  is_debug_console_enabled :: "bool outcome"
  listen_log_event :: "unit outcome"

definition set_store :: "(DebugConsoleState \<Rightarrow> DebugConsoleState) \<Rightarrow> world \<Rightarrow> world" where
  "set_store f w = w\<lparr>store := f (store w)\<rparr>"

definition call_invoke :: "string \<Rightarrow> world \<Rightarrow> world" where
  "call_invoke cmd w = w\<lparr>invoked := invoked w @ [cmd]\<rparr>"

definition console_error :: "string \<Rightarrow> world \<Rightarrow> world" where
  "console_error msg w = w\<lparr>console := console w @ [msg]\<rparr>"

text \<open>\<open>xs.slice(-n)\<close> for \<open>n > 0\<close>: the last \<open>n\<close> elements, all of them when there are fewer.\<close>

definition slice_last :: "nat \<Rightarrow> 'a list \<Rightarrow> 'a list" where
  "slice_last n xs = drop (length xs - n) xs"

definition addLog :: "LogEntry \<Rightarrow> DebugConsoleState \<Rightarrow> DebugConsoleState" where
  "addLog log s =
     (let newLogs = logs s @ [log] in
      if length newLogs > MAX_LOGS then s\<lparr>logs := slice_last MAX_LOGS newLogs\<rparr>
      else s\<lparr>logs := newLogs\<rparr>)"

definition loadLogs :: "backend \<Rightarrow> world \<Rightarrow> unit outcome \<times> world" where
  "loadLogs b w =
     (let w1 = call_invoke ''get_debug_console_logs'' w in
      case get_debug_console_logs b of
        Inr snapshot \<Rightarrow> (Inr (), set_store (\<lambda>s. s\<lparr>logs := snapshot\<rparr>) w1)
      | Inl e \<Rightarrow> (Inr (), console_error ''Failed to load logs:'' w1))"

definition clearLogs :: "backend \<Rightarrow> world \<Rightarrow> unit outcome \<times> world" where
  "clearLogs b w =
     (let w1 = call_invoke ''clear_debug_console_logs'' w in
      case clear_debug_console_logs b of
        Inr _ \<Rightarrow> (Inr (), set_store (\<lambda>s. s\<lparr>logs := []\<rparr>) w1)
      | Inl e \<Rightarrow> (Inr (), console_error ''Failed to clear logs:'' w1))"

text \<open>
  \<open>listen\<close> registers the callback on the channel and resolves to the function that
  cancels this registration; when it rejects nothing is registered. The registration is
  taken to be live from the moment \<open>listen\<close> resolves.

  The functions below are the actions run without interruption: nothing else runs while
  an action waits at an \<open>await\<close>. In the source an action is suspended at every \<open>await\<close>;
  in particular \<open>startListening\<close> reads \<open>unlistenFn\<close>, waits for \<open>listen\<close>, and stores the
  handle only afterwards. The single steps, and calls that overlap, follow further down
  (\<open>advance\<close>, \<open>run_schedule\<close>).
\<close>

definition startListening :: "backend \<Rightarrow> world \<Rightarrow> unit outcome \<times> world" where
  "startListening b w =
     (case unlistenFn (store w) of
        Some h \<Rightarrow> (Inr (), w)
      | None \<Rightarrow>
          (case listen_log_event b of
             Inr _ \<Rightarrow>
               (let h = next_handle w;
                    w1 = w\<lparr>listeners := listeners w @ [h], next_handle := Suc h\<rparr>
                in (Inr (), set_store (\<lambda>s. s\<lparr>unlistenFn := Some h\<rparr>) w1))
           | Inl e \<Rightarrow> (Inr (), console_error ''Failed to start listening for logs:'' w)))"

definition stopListening :: "world \<Rightarrow> world" where
  "stopListening w =
     (case unlistenFn (store w) of
        Some h \<Rightarrow> set_store (\<lambda>s. s\<lparr>unlistenFn := None\<rparr>) (w\<lparr>listeners := removeAll h (listeners w)\<rparr>)
      | None \<Rightarrow> w)"

definition enable :: "backend \<Rightarrow> world \<Rightarrow> unit outcome \<times> world" where
  "enable b w =
     (let w1 = call_invoke ''enable_debug_console'' w in
      case enable_debug_console b of
        Inl e \<Rightarrow> (Inr (), console_error ''Failed to enable debug console:'' w1)
      | Inr _ \<Rightarrow>
          (let w2 = set_store (\<lambda>s. s\<lparr>isEnabled := True\<rparr>) w1 in
           case loadLogs b w2 of
             (Inl e, w3) \<Rightarrow> (Inr (), console_error ''Failed to enable debug console:'' w3)
           | (Inr _, w3) \<Rightarrow>
               (case startListening b w3 of
                  (Inl e, w4) \<Rightarrow> (Inr (), console_error ''Failed to enable debug console:'' w4)
                | (Inr _, w4) \<Rightarrow> (Inr (), w4))))"

definition disable :: "backend \<Rightarrow> world \<Rightarrow> unit outcome \<times> world" where
  "disable b w =
     (let w1 = call_invoke ''disable_debug_console'' w in
      case disable_debug_console b of
        Inl e \<Rightarrow> (Inr (), console_error ''Failed to disable debug console:'' w1)
      | Inr _ \<Rightarrow> (Inr (), set_store (\<lambda>s. s\<lparr>isEnabled := False\<rparr>) (stopListening w1)))"

definition checkEnabled :: "backend \<Rightarrow> world \<Rightarrow> unit outcome \<times> world" where
  "checkEnabled b w =
     (let w1 = call_invoke ''is_debug_console_enabled'' w in
      case is_debug_console_enabled b of
        Inl e \<Rightarrow> (Inr (), console_error ''Failed to check debug console status:'' w1)
      | Inr en \<Rightarrow>
          (let w2 = set_store (\<lambda>s. s\<lparr>isEnabled := en\<rparr>) w1 in
           if en then
             (case loadLogs b w2 of
                (Inl e, w3) \<Rightarrow> (Inr (), console_error ''Failed to check debug console status:'' w3)
              | (Inr _, w3) \<Rightarrow>
                  (case startListening b w3 of
                     (Inl e, w4) \<Rightarrow>
                       (Inr (), console_error ''Failed to check debug console status:'' w4)
                   | (Inr _, w4) \<Rightarrow> (Inr (), w4)))
           else (Inr (), w2)))"

text \<open>
  One record pushed on the channel: the callback of every live registration runs once,
  and each run calls \<open>addLog\<close> with the payload.
\<close>

definition push_event :: "LogEntry \<Rightarrow> world \<Rightarrow> world" where
  "push_event log w = foldl (\<lambda>w' h. set_store (addLog log) w') w (listeners w)"

text \<open>
  The same two actions step by step. \<open>enable\<close> and \<open>checkEnabled\<close> are suspended where they
  await the command, where \<open>loadLogs\<close> awaits the snapshot, where they await \<open>loadLogs\<close>, and
  where \<open>startListening\<close> awaits \<open>listen\<close>; between two such points a call runs alone. The
  program point says where a call is suspended: \<open>BeforeListen\<close> is the point at which
  \<open>loadLogs\<close> has returned and \<open>startListening\<close> has not yet read \<open>unlistenFn\<close>, \<open>AwaitListen\<close>
  the point after that read at which \<open>listen\<close> is pending.
\<close>

datatype call_kind = EnableCall | CheckEnabledCall

datatype pc = Start | AwaitCommand | AwaitLogs | BeforeListen | AwaitListen | Done

fun failure_line :: "call_kind \<Rightarrow> string" where
  "failure_line EnableCall = ''Failed to enable debug console:''"
| "failure_line CheckEnabledCall = ''Failed to check debug console status:''"

fun advance :: "call_kind \<Rightarrow> backend \<Rightarrow> pc \<Rightarrow> world \<Rightarrow> pc \<times> world" where
  "advance EnableCall b Start w = (AwaitCommand, call_invoke ''enable_debug_console'' w)"
| "advance CheckEnabledCall b Start w = (AwaitCommand, call_invoke ''is_debug_console_enabled'' w)"
| "advance EnableCall b AwaitCommand w =
     (case enable_debug_console b of
        Inl e \<Rightarrow> (Done, console_error (failure_line EnableCall) w)
      | Inr _ \<Rightarrow>
          (AwaitLogs,
           call_invoke ''get_debug_console_logs'' (set_store (\<lambda>s. s\<lparr>isEnabled := True\<rparr>) w)))"
| "advance CheckEnabledCall b AwaitCommand w =
     (case is_debug_console_enabled b of
        Inl e \<Rightarrow> (Done, console_error (failure_line CheckEnabledCall) w)
      | Inr en \<Rightarrow>
          (let w2 = set_store (\<lambda>s. s\<lparr>isEnabled := en\<rparr>) w in
           if en then (AwaitLogs, call_invoke ''get_debug_console_logs'' w2) else (Done, w2)))"
| "advance k b AwaitLogs w =
     (BeforeListen,
      case get_debug_console_logs b of
        Inr snapshot \<Rightarrow> set_store (\<lambda>s. s\<lparr>logs := snapshot\<rparr>) w
      | Inl e \<Rightarrow> console_error ''Failed to load logs:'' w)"
| "advance k b BeforeListen w =
     (case unlistenFn (store w) of Some h \<Rightarrow> (Done, w) | None \<Rightarrow> (AwaitListen, w))"
| "advance k b AwaitListen w =
     (case listen_log_event b of
        Inr _ \<Rightarrow>
          (let h = next_handle w;
               w1 = w\<lparr>listeners := listeners w @ [h], next_handle := Suc h\<rparr>
           in (Done, set_store (\<lambda>s. s\<lparr>unlistenFn := Some h\<rparr>) w1))
      | Inl e \<Rightarrow> (Done, console_error ''Failed to start listening for logs:'' w))"
| "advance k b Done w = (Done, w)"

text \<open>
  Calls that overlap: each call is a task with its kind, the answers it gets and its
  program point; a schedule names, step by step, the task that runs next.
\<close>

type_synonym task = "call_kind \<times> backend \<times> pc"

definition resume :: "nat \<Rightarrow> world \<times> task list \<Rightarrow> world \<times> task list" where
  "resume i c =
     (case c of (w, ts) \<Rightarrow>
        if i < length ts then
          (case ts ! i of (k, b, at) \<Rightarrow>
             (case advance k b at w of (at', w') \<Rightarrow> (w', ts[i := (k, b, at')])))
        else c)"

definition run_schedule :: "nat list \<Rightarrow> world \<times> task list \<Rightarrow> world \<times> task list" where
  "run_schedule sch c = foldl (\<lambda>c' i. resume i c') c sch"

text \<open>One call run from its start to its end with nothing in between.\<close>

definition run_alone :: "call_kind \<Rightarrow> backend \<Rightarrow> world \<Rightarrow> world" where
  "run_alone k b w = fst (run_schedule [0, 0, 0, 0, 0] (w, [(k, b, Start)]))"

text \<open>A task that has read \<open>unlistenFn\<close> as empty and is waiting for \<open>listen\<close>.\<close>

definition past_guard :: "task \<Rightarrow> bool" where
  "past_guard t = (snd (snd t) = AwaitListen)"

text \<open>
  The actions as data, so that a history of the store is a list: each action that talks
  to the backend carries the answers it gets. In a history an action runs to its end
  before the next one starts.
\<close>

datatype action =
    AddLog LogEntry
  | LoadLogs backend
  | ClearLogs backend
  | Enable backend
  | Disable backend
  | CheckEnabled backend
  | PushEvent LogEntry

fun perform :: "action \<Rightarrow> world \<Rightarrow> world" where
  "perform (AddLog x) w = set_store (addLog x) w"
| "perform (LoadLogs b) w = snd (loadLogs b w)"
| "perform (ClearLogs b) w = snd (clearLogs b w)"
| "perform (Enable b) w = snd (enable b w)"
| "perform (Disable b) w = snd (disable b w)"
| "perform (CheckEnabled b) w = snd (checkEnabled b w)"
| "perform (PushEvent x) w = push_event x w"

definition run :: "action list \<Rightarrow> world \<Rightarrow> world" where
  "run as w = foldl (\<lambda>w' a. perform a w') w as"

text \<open>The snapshot an action would install, if any, fits the capacity.\<close>

definition snapshot_bounded :: "backend \<Rightarrow> bool" where
  "snapshot_bounded b =
     (case get_debug_console_logs b of Inr snapshot \<Rightarrow> length snapshot \<le> MAX_LOGS | Inl e \<Rightarrow> True)"

fun action_bounded :: "action \<Rightarrow> bool" where
  "action_bounded (LoadLogs b) = snapshot_bounded b"
| "action_bounded (Enable b) = snapshot_bounded b"
| "action_bounded (CheckEnabled b) = snapshot_bounded b"
| "action_bounded a = True"

text \<open>Sample data: a record, and a backend on which every call succeeds.\<close>

definition sample_log :: "int \<Rightarrow> LogEntry" where
  "sample_log n =
     \<lparr>log_id = n, timestamp = 1700000000000 + n, level = INFO, target = ''proxy'',
      message = ''started'', log_fields = []\<rparr>"

definition answering :: "LogEntry list \<Rightarrow> backend" where
  "answering snapshot =
     \<lparr>enable_debug_console = Inr (), disable_debug_console = Inr (),
      get_debug_console_logs = Inr snapshot, clear_debug_console_logs = Inr (),
      is_debug_console_enabled = Inr True, listen_log_event = Inr ()\<rparr>"

definition failing :: "thrown \<Rightarrow> backend" where
  "failing e =
     \<lparr>enable_debug_console = Inl e, disable_debug_console = Inl e,
      get_debug_console_logs = Inl e, clear_debug_console_logs = Inl e,
      is_debug_console_enabled = Inl e, listen_log_event = Inl e\<rparr>"

text \<open>Two calls of \<open>enable\<close> on a fresh page, neither of them started.\<close>

definition two_enables :: "world \<times> task list" where
  "two_enables = (initial_world, [(EnableCall, answering [], Start), (EnableCall, answering [], Start)])"

text \<open>A Listening store whose buffer is full: one oldest record and 4999 newer ones.\<close>

definition full_world :: world where
  "full_world =
     initial_world
       \<lparr>store := initial_state
          \<lparr>logs := sample_log 0 # replicate 4999 (sample_log 1), unlistenFn := Some 0\<rparr>,
        listeners := [0], next_handle := 1\<rparr>"

text \<open>The store after one successful \<open>enable\<close> on a fresh page: Listening, one record loaded.\<close>

definition listening_world :: world where
  "listening_world = snd (enable (answering [sample_log 1]) initial_world)"

section \<open>The request executor (\<open>request\<close>)\<close>

subsection \<open>String operations of the platform\<close>

text \<open>\<open>s.includes(p)\<close>: \<open>p\<close> occurs in \<open>s\<close> as a contiguous substring.\<close>

fun str_includes :: "string \<Rightarrow> string \<Rightarrow> bool" where
  "str_includes [] p = (p = [])"
| "str_includes (c # s) p = (prefix p (c # s) \<or> str_includes s p)"

text \<open>
  \<open>s.replace(p, r)\<close> with a string pattern: the first occurrence of \<open>p\<close> is replaced, the
  rest of \<open>s\<close> is kept. (A \<open>$\<close> in \<open>r\<close> would start a replacement pattern; the only
  replacement text \<open>request\<close> passes is an output of \<open>encodeURIComponent\<close>, which holds
  none.)
\<close>

fun replace :: "string \<Rightarrow> string \<Rightarrow> string \<Rightarrow> string" where
  "replace [] p r = (if p = [] then r else [])"
| "replace (c # s) p r =
     (if prefix p (c # s) then r @ drop (length p) (c # s) else c # replace s p r)"

definition hex_digit :: "nat \<Rightarrow> char" where
  "hex_digit n = ''0123456789ABCDEF'' ! n"

definition pct_encode :: "char \<Rightarrow> string" where
  "pct_encode c = [CHR ''%'', hex_digit (of_char c div 16), hex_digit (of_char c mod 16)]"

definition alphanumeric :: "char \<Rightarrow> bool" where
  "alphanumeric c \<longleftrightarrow>
     c \<in> set ''ABCDEFGHIJKLMNOPQRSTUVWXYZabcdefghijklmnopqrstuvwxyz0123456789''"

text \<open>
  \<open>encodeURIComponent\<close>: every byte of the UTF-8 form but letters, digits and the marks
  \<open>-_.!~*'()\<close> is percent-encoded. (On a string with a lone surrogate it throws; strings
  here are well formed.)
\<close>

definition uri_unreserved :: "char \<Rightarrow> bool" where
  "uri_unreserved c \<longleftrightarrow> alphanumeric c \<or> c \<in> set ''-_.!~*'' \<or> c = CHR 0x27 \<or> c \<in> set ''()''"

definition encodeURIComponent :: "string \<Rightarrow> string" where
  "encodeURIComponent s = concat (map (\<lambda>c. if uri_unreserved c then [c] else pct_encode c) s)"

text \<open>
  The serializer behind \<open>URLSearchParams.toString\<close> (application/x-www-form-urlencoded):
  a space becomes \<open>+\<close>, alphanumerics and \<open>*-._\<close> stay, every other byte is percent-encoded;
  name and value are joined by \<open>=\<close> and the pairs by \<open>&\<close>.
\<close>

definition form_safe :: "char \<Rightarrow> bool" where
  "form_safe c \<longleftrightarrow> alphanumeric c \<or> c \<in> set ''*-._''"

definition form_encode :: "string \<Rightarrow> string" where
  "form_encode s =
     concat (map (\<lambda>c. if c = CHR '' '' then ''+'' else if form_safe c then [c] else pct_encode c) s)"

fun join :: "char \<Rightarrow> string list \<Rightarrow> string" where
  "join sep [] = []"
| "join sep [x] = x"
| "join sep (x # y # ys) = x @ sep # join sep (y # ys)"

definition params_toString :: "(string \<times> string) list \<Rightarrow> string" where
  "params_toString ps = join (CHR ''&'') (map (\<lambda>(k, v). form_encode k @ CHR ''='' # form_encode v) ps)"

text \<open>The decimal digits of a status code, as the template literal prints them.\<close>

fun show_nat :: "nat \<Rightarrow> string" where
  "show_nat n = (if n < 10 then [hex_digit n] else show_nat (n div 10) @ [hex_digit (n mod 10)])"

declare show_nat.simps [simp del]

subsection \<open>The command registry\<close>

datatype http_method = GET | POST | DELETE

record descriptor =
  url :: string
  meth :: http_method

definition COMMAND_MAPPING :: "(string \<times> descriptor) list" where
  "COMMAND_MAPPING = [
    (''list_accounts'', \<lparr>url = ''/api/accounts'', meth = GET\<rparr>),
    (''get_current_account'', \<lparr>url = ''/api/accounts/current'', meth = GET\<rparr>),
    (''switch_account'', \<lparr>url = ''/api/accounts/switch'', meth = POST\<rparr>),
    (''add_account'', \<lparr>url = ''/api/accounts'', meth = POST\<rparr>),
    (''delete_account'', \<lparr>url = ''/api/accounts/:accountId'', meth = DELETE\<rparr>),
    (''delete_accounts'', \<lparr>url = ''/api/accounts/bulk-delete'', meth = POST\<rparr>),
    (''fetch_account_quota'', \<lparr>url = ''/api/accounts/:accountId/quota'', meth = GET\<rparr>),
    (''refresh_account_quota'', \<lparr>url = ''/api/accounts/:accountId/quota'', meth = GET\<rparr>),
    (''refresh_all_quotas'', \<lparr>url = ''/api/accounts/refresh'', meth = POST\<rparr>),
    (''reorder_accounts'', \<lparr>url = ''/api/accounts/reorder'', meth = POST\<rparr>),
    (''toggle_proxy_status'', \<lparr>url = ''/api/accounts/:accountId/toggle-proxy'', meth = POST\<rparr>),
    (''warm_up_accounts'', \<lparr>url = ''/api/accounts/warmup'', meth = POST\<rparr>),
    (''warm_up_all_accounts'', \<lparr>url = ''/api/accounts/warmup'', meth = POST\<rparr>),
    (''warm_up_account'', \<lparr>url = ''/api/accounts/:accountId/warmup'', meth = POST\<rparr>),
    (''export_accounts'', \<lparr>url = ''/api/accounts/export'', meth = POST\<rparr>),
    (''bind_device_profile'', \<lparr>url = ''/api/accounts/:accountId/bind-device'', meth = POST\<rparr>),
    (''get_device_profiles'', \<lparr>url = ''/api/accounts/:accountId/device-profiles'', meth = GET\<rparr>),
    (''list_device_versions'', \<lparr>url = ''/api/accounts/:accountId/device-versions'', meth = GET\<rparr>),
    (''preview_generate_profile'', \<lparr>url = ''/api/accounts/device-preview'', meth = POST\<rparr>),
    (''bind_device_profile_with_profile'', \<lparr>url = ''/api/accounts/:accountId/bind-device-profile'', meth = POST\<rparr>),
    (''restore_original_device'', \<lparr>url = ''/api/accounts/restore-original'', meth = POST\<rparr>),
    (''restore_device_version'', \<lparr>url = ''/api/accounts/:accountId/device-versions/:versionId/restore'', meth = POST\<rparr>),
    (''delete_device_version'', \<lparr>url = ''/api/accounts/:accountId/device-versions/:versionId'', meth = DELETE\<rparr>),
    (''open_device_folder'', \<lparr>url = ''/api/system/open-folder'', meth = POST\<rparr>),
    (''get_proxy_status'', \<lparr>url = ''/api/proxy/status'', meth = GET\<rparr>),
    (''start_proxy_service'', \<lparr>url = ''/api/proxy/start'', meth = POST\<rparr>),
    (''stop_proxy_service'', \<lparr>url = ''/api/proxy/stop'', meth = POST\<rparr>),
    (''update_model_mapping'', \<lparr>url = ''/api/proxy/mapping'', meth = POST\<rparr>),
    (''generate_api_key'', \<lparr>url = ''/api/proxy/api-key/generate'', meth = POST\<rparr>),
    (''clear_proxy_session_bindings'', \<lparr>url = ''/api/proxy/session-bindings/clear'', meth = POST\<rparr>),
    (''clear_proxy_rate_limit'', \<lparr>url = ''/api/proxy/rate-limits/:accountId'', meth = DELETE\<rparr>),
    (''clear_all_proxy_rate_limits'', \<lparr>url = ''/api/proxy/rate-limits'', meth = DELETE\<rparr>),
    (''check_proxy_health'', \<lparr>url = ''/api/proxy/health-check/trigger'', meth = POST\<rparr>),
    (''get_preferred_account'', \<lparr>url = ''/api/proxy/preferred-account'', meth = GET\<rparr>),
    (''set_preferred_account'', \<lparr>url = ''/api/proxy/preferred-account'', meth = POST\<rparr>),
    (''fetch_zai_models'', \<lparr>url = ''/api/zai/models/fetch'', meth = POST\<rparr>),
    (''load_config'', \<lparr>url = ''/api/config'', meth = GET\<rparr>),
    (''save_config'', \<lparr>url = ''/api/config'', meth = POST\<rparr>),
    (''get_proxy_stats'', \<lparr>url = ''/api/proxy/stats'', meth = GET\<rparr>),
    (''set_proxy_monitor_enabled'', \<lparr>url = ''/api/proxy/monitor/toggle'', meth = POST\<rparr>),
    (''get_proxy_logs_filtered'', \<lparr>url = ''/api/logs'', meth = GET\<rparr>),
    (''get_proxy_logs_count_filtered'', \<lparr>url = ''/api/logs/count'', meth = GET\<rparr>),
    (''clear_proxy_logs'', \<lparr>url = ''/api/logs/clear'', meth = POST\<rparr>),
    (''get_proxy_log_detail'', \<lparr>url = ''/api/logs/:logId'', meth = GET\<rparr>),
    (''enable_debug_console'', \<lparr>url = ''/api/proxy/debug/enable'', meth = POST\<rparr>),
    (''disable_debug_console'', \<lparr>url = ''/api/proxy/debug/disable'', meth = POST\<rparr>),
    (''is_debug_console_enabled'', \<lparr>url = ''/api/proxy/debug/enabled'', meth = GET\<rparr>),
    (''get_debug_console_logs'', \<lparr>url = ''/api/proxy/debug/logs'', meth = GET\<rparr>),
    (''clear_debug_console_logs'', \<lparr>url = ''/api/proxy/debug/logs/clear'', meth = POST\<rparr>),
    (''get_cli_sync_status'', \<lparr>url = ''/api/proxy/cli/status'', meth = POST\<rparr>),
    (''execute_cli_sync'', \<lparr>url = ''/api/proxy/cli/sync'', meth = POST\<rparr>),
    (''execute_cli_restore'', \<lparr>url = ''/api/proxy/cli/restore'', meth = POST\<rparr>),
    (''get_cli_config_content'', \<lparr>url = ''/api/proxy/cli/config'', meth = POST\<rparr>),
    (''get_token_stats_hourly'', \<lparr>url = ''/api/stats/token/hourly'', meth = GET\<rparr>),
    (''get_token_stats_daily'', \<lparr>url = ''/api/stats/token/daily'', meth = GET\<rparr>),
    (''get_token_stats_weekly'', \<lparr>url = ''/api/stats/token/weekly'', meth = GET\<rparr>),
    (''get_token_stats_by_account'', \<lparr>url = ''/api/stats/token/by-account'', meth = GET\<rparr>),
    (''get_token_stats_summary'', \<lparr>url = ''/api/stats/token/summary'', meth = GET\<rparr>),
    (''get_token_stats_by_model'', \<lparr>url = ''/api/stats/token/by-model'', meth = GET\<rparr>),
    (''get_token_stats_model_trend_hourly'', \<lparr>url = ''/api/stats/token/model-trend/hourly'', meth = GET\<rparr>),
    (''get_token_stats_model_trend_daily'', \<lparr>url = ''/api/stats/token/model-trend/daily'', meth = GET\<rparr>),
    (''get_token_stats_account_trend_hourly'', \<lparr>url = ''/api/stats/token/account-trend/hourly'', meth = GET\<rparr>),
    (''get_token_stats_account_trend_daily'', \<lparr>url = ''/api/stats/token/account-trend/daily'', meth = GET\<rparr>),
    (''get_data_dir_path'', \<lparr>url = ''/api/system/data-dir'', meth = GET\<rparr>),
    (''save_text_file'', \<lparr>url = ''/api/system/save-file'', meth = POST\<rparr>),
    (''get_update_settings'', \<lparr>url = ''/api/system/updates/settings'', meth = GET\<rparr>),
    (''save_update_settings'', \<lparr>url = ''/api/system/updates/save'', meth = POST\<rparr>),
    (''is_auto_launch_enabled'', \<lparr>url = ''/api/system/autostart/status'', meth = GET\<rparr>),
    (''toggle_auto_launch'', \<lparr>url = ''/api/system/autostart/toggle'', meth = POST\<rparr>),
    (''get_http_api_settings'', \<lparr>url = ''/api/system/http-api/settings'', meth = GET\<rparr>),
    (''save_http_api_settings'', \<lparr>url = ''/api/system/http-api/settings'', meth = POST\<rparr>),
    (''cloudflared_install'', \<lparr>url = ''/api/proxy/cloudflared/install'', meth = POST\<rparr>),
    (''cloudflared_start'', \<lparr>url = ''/api/proxy/cloudflared/start'', meth = POST\<rparr>),
    (''cloudflared_stop'', \<lparr>url = ''/api/proxy/cloudflared/stop'', meth = POST\<rparr>),
    (''cloudflared_get_status'', \<lparr>url = ''/api/proxy/cloudflared/status'', meth = GET\<rparr>),
    (''should_check_updates'', \<lparr>url = ''/api/system/updates/check-status'', meth = GET\<rparr>),
    (''check_for_updates'', \<lparr>url = ''/api/system/updates/check'', meth = POST\<rparr>),
    (''update_last_check_time'', \<lparr>url = ''/api/system/updates/touch'', meth = POST\<rparr>),
    (''prepare_oauth_url'', \<lparr>url = ''/api/auth/url'', meth = GET\<rparr>),
    (''start_oauth_login'', \<lparr>url = ''/api/accounts/oauth/start'', meth = POST\<rparr>),
    (''complete_oauth_login'', \<lparr>url = ''/api/accounts/oauth/complete'', meth = POST\<rparr>),
    (''cancel_oauth_login'', \<lparr>url = ''/api/accounts/oauth/cancel'', meth = POST\<rparr>),
    (''submit_oauth_code'', \<lparr>url = ''/api/accounts/oauth/submit-code'', meth = POST\<rparr>),
    (''import_v1_accounts'', \<lparr>url = ''/api/accounts/import/v1'', meth = POST\<rparr>),
    (''import_from_db'', \<lparr>url = ''/api/accounts/import/db'', meth = POST\<rparr>),
    (''import_custom_db'', \<lparr>url = ''/api/accounts/import/db-custom'', meth = POST\<rparr>),
    (''sync_account_from_db'', \<lparr>url = ''/api/accounts/sync/db'', meth = POST\<rparr>),
    (''open_data_folder'', \<lparr>url = ''/api/system/open-folder'', meth = POST\<rparr>),
    (''get_ip_access_logs'', \<lparr>url = ''/api/security/logs'', meth = GET\<rparr>),
    (''clear_ip_access_logs'', \<lparr>url = ''/api/security/logs/clear'', meth = POST\<rparr>),
    (''get_ip_stats'', \<lparr>url = ''/api/security/stats'', meth = GET\<rparr>),
    (''get_ip_token_stats'', \<lparr>url = ''/api/security/token-stats'', meth = GET\<rparr>),
    (''get_ip_blacklist'', \<lparr>url = ''/api/security/blacklist'', meth = GET\<rparr>),
    (''add_ip_to_blacklist'', \<lparr>url = ''/api/security/blacklist'', meth = POST\<rparr>),
    (''remove_ip_from_blacklist'', \<lparr>url = ''/api/security/blacklist'', meth = DELETE\<rparr>),
    (''clear_ip_blacklist'', \<lparr>url = ''/api/security/blacklist/clear'', meth = POST\<rparr>),
    (''check_ip_in_blacklist'', \<lparr>url = ''/api/security/blacklist/check'', meth = GET\<rparr>),
    (''get_ip_whitelist'', \<lparr>url = ''/api/security/whitelist'', meth = GET\<rparr>),
    (''add_ip_to_whitelist'', \<lparr>url = ''/api/security/whitelist'', meth = POST\<rparr>),
    (''remove_ip_from_whitelist'', \<lparr>url = ''/api/security/whitelist'', meth = DELETE\<rparr>),
    (''clear_ip_whitelist'', \<lparr>url = ''/api/security/whitelist/clear'', meth = POST\<rparr>),
    (''check_ip_in_whitelist'', \<lparr>url = ''/api/security/whitelist/check'', meth = GET\<rparr>),
    (''get_security_config'', \<lparr>url = ''/api/security/config'', meth = GET\<rparr>),
    (''update_security_config'', \<lparr>url = ''/api/security/config'', meth = POST\<rparr>)]"

subsection \<open>Arguments, requests, responses\<close>

text \<open>
  A value of the argument object, as far as \<open>request\<close> looks at it: \<open>undefined\<close>, \<open>null\<close>,
  or any other value, kept as the text \<open>String(value)\<close> gives. The argument object is the
  list of its own enumerable properties in the order \<open>Object.keys\<close> lists them; \<open>None\<close>
  is a call without arguments.
\<close>

datatype argval = Undefined | Null | Val string

type_synonym args = "(string \<times> argval) list"

fun js_String :: "argval \<Rightarrow> string" where
  "js_String Undefined = ''undefined''"
| "js_String Null = ''null''"
| "js_String (Val s) = s"

text \<open>The request handed to \<open>fetch\<close>; the body is the object \<open>JSON.stringify\<close> serializes.\<close>

record http_request =
  req_url :: string
  req_method :: http_method
  req_headers :: "(string \<times> string) list"
  req_body :: "args option"

text \<open>
  A response: its status, its body as text, and what parsing the body as JSON gives
  (\<open>None\<close> when the body is not valid JSON, the empty body included).
\<close>

record response =
  status :: nat
  body_text :: string
  body_json :: "json option"

definition response_ok :: "response \<Rightarrow> bool" where
  "response_ok r \<longleftrightarrow> 200 \<le> status r \<and> status r \<le> 299"

text \<open>
  The page: \<open>window._lastAuthErrorTime\<close>, the events dispatched on \<open>window\<close>, the console
  lines, and the requests handed to \<open>fetch\<close>.
\<close>

record page =
  lastAuthErrorTime :: "int option"
  dispatched :: "string list"
  console_lines :: "string list"
  fetched :: "http_request list"

text \<open>
  What one call of \<open>request\<close> finds around it: whether the native embedding is present,
  the embedding's call interface, the stored API key, the network, and the clock.
\<close>

record env =
  isTauri :: bool
  invoke :: "string \<Rightarrow> args option \<Rightarrow> json outcome"
  apiKey :: "string option"
  fetch :: "http_request \<Rightarrow> response outcome"
  now :: int

subsection \<open>Building the request\<close>

text \<open>\<open>args[key]\<close>; a property the object does not have reads as \<open>undefined\<close>.\<close>

definition property :: "args \<Rightarrow> string \<Rightarrow> argval" where
  "property a key = (case map_of a key of Some v \<Rightarrow> v | None \<Rightarrow> Undefined)"

text \<open>\<open>Object.entries(args)\<close>, for an \<open>args\<close> that passed the test \<open>if (args)\<close>.\<close>

definition entries :: "args option \<Rightarrow> args" where
  "entries a = (case a of Some kvs \<Rightarrow> kvs | None \<Rightarrow> [])"

definition substitute_key :: "args \<Rightarrow> string \<Rightarrow> string \<Rightarrow> string" where
  "substitute_key a u key =
     (let placeholder = CHR '':'' # key in
      if str_includes u placeholder
      then replace u placeholder (encodeURIComponent (js_String (property a key)))
      else u)"

definition substitute_path :: "string \<Rightarrow> args option \<Rightarrow> string" where
  "substitute_path u a =
     (case a of None \<Rightarrow> u | Some kvs \<Rightarrow> foldl (substitute_key kvs) u (map fst kvs))"

definition query_params :: "args \<Rightarrow> (string \<times> string) list" where
  "query_params kvs =
     map (\<lambda>(key, v). (key, js_String v)) (filter (\<lambda>(key, v). v \<noteq> Undefined \<and> v \<noteq> Null) kvs)"

definition make_headers :: "string option \<Rightarrow> (string \<times> string) list" where
  "make_headers k =
     (''Content-Type'', ''application/json'') #
     (case k of
        Some key \<Rightarrow>
          (if key \<noteq> [] then [(''Authorization'', ''Bearer '' @ key), (''x-api-key'', key)] else [])
      | None \<Rightarrow> [])"

definition build_request :: "descriptor \<Rightarrow> args option \<Rightarrow> string option \<Rightarrow> http_request" where
  "build_request mapping a k =
     (let u = substitute_path (url mapping) a;
          options = \<lparr>req_url = u, req_method = meth mapping, req_headers = make_headers k,
                     req_body = None\<rparr>
      in if (meth mapping = GET \<or> meth mapping = DELETE) \<and> a \<noteq> None then
           (let qs = params_toString (query_params (entries a)) in
            if qs \<noteq> [] then options\<lparr>req_url := u @ CHR ''?'' # qs\<rparr> else options)
         else if meth mapping = POST \<and> a \<noteq> None then options\<lparr>req_body := a\<rparr>
         else options)"

subsection \<open>Handling the response\<close>

definition log_line :: "string \<Rightarrow> page \<Rightarrow> page" where
  "log_line msg p = p\<lparr>console_lines := console_lines p @ [msg]\<rparr>"

text \<open>The debounced \<open>abv-unauthorized\<close> notification of a response with status 401.\<close>

text \<open>The value of the local \<open>lastAuthError\<close>: \<open>window._lastAuthErrorTime || 0\<close>.\<close>

definition lastAuthError :: "page \<Rightarrow> int" where
  "lastAuthError p = (case lastAuthErrorTime p of Some l \<Rightarrow> l | None \<Rightarrow> 0)"

definition notify_unauthorized :: "int \<Rightarrow> page \<Rightarrow> page" where
  "notify_unauthorized t p =
     (if t - lastAuthError p > 2000
      then p\<lparr>lastAuthErrorTime := Some t, dispatched := dispatched p @ [''abv-unauthorized'']\<rparr>
      else p)"

fun truthy :: "json \<Rightarrow> bool" where
  "truthy JNull = False"
| "truthy (JBool b) = b"
| "truthy (JNum n) = (n \<noteq> 0)"
| "truthy (JStr s) = (s \<noteq> [])"
| "truthy (JArr xs) = True"
| "truthy (JObj kvs) = True"

text \<open>
  \<open>errorData.error || `HTTP Error ${status}`\<close>, thrown: reading a property of \<open>null\<close> is a
  \<open>TypeError\<close>, a value without the property gives \<open>undefined\<close>.
\<close>

definition error_of :: "json \<Rightarrow> nat \<Rightarrow> thrown" where
  "error_of errorData st =
     (let generic = Value (JStr (''HTTP Error '' @ show_nat st)) in
      case errorData of
        JNull \<Rightarrow> JsError ''TypeError'' ''Cannot read properties of null (reading 'error')''
      | JObj kvs \<Rightarrow>
          (case map_of kvs ''error'' of
             Some v \<Rightarrow> if truthy v then Value v else generic
           | None \<Rightarrow> generic)
      | _ \<Rightarrow> generic)"

definition handle_response :: "env \<Rightarrow> string \<Rightarrow> response \<Rightarrow> page \<Rightarrow> json outcome \<times> page" where
  "handle_response e cmd r p =
     (if \<not> response_ok r then
        (let p1 = (if \<not> isTauri e \<and> status r = 401 then notify_unauthorized (now e) p else p);
             errorData = (case body_json r of Some j \<Rightarrow> j | None \<Rightarrow> JObj [])
         in (Inl (error_of errorData (status r)), p1))
      else if status r = 204 then (Inr JNull, p)
      else if body_text r = [] then (Inr JNull, p)
      else
        (case body_json r of
           Some j \<Rightarrow> (Inr j, p)
         | None \<Rightarrow>
             (Inr (JStr (body_text r)),
              log_line (''Failed to parse JSON response for ['' @ cmd @ '']:'') p)))"

text \<open>
  The \<open>try\<close> block around \<open>fetch\<close>: the request is handed to the network, the response is
  handled, and whatever is thrown inside is logged and thrown again.
\<close>

definition send :: "env \<Rightarrow> string \<Rightarrow> http_request \<Rightarrow> page \<Rightarrow> json outcome \<times> page" where
  "send e cmd rq p =
     (let p1 = p\<lparr>fetched := fetched p @ [rq]\<rparr>
      in case fetch e rq of
           Inl err \<Rightarrow> (Inl err, log_line (''Web Fetch Error ['' @ cmd @ '']:'') p1)
         | Inr r \<Rightarrow>
             (case handle_response e cmd r p1 of
                (Inl err, p2) \<Rightarrow> (Inl err, log_line (''Web Fetch Error ['' @ cmd @ '']:'') p2)
              | (Inr v, p2) \<Rightarrow> (Inr v, p2)))"

text \<open>
  \<open>COMMAND_MAPPING[cmd]\<close> reads the table first and then what every object inherits: for
  one of the names below the lookup gives a function or object, which passes the test
  \<open>!mapping\<close> and has neither \<open>url\<close> nor \<open>method\<close>.
\<close>

definition object_prototype_names :: "string list" where
  "object_prototype_names =
     [''constructor'', ''toString'', ''toLocaleString'', ''valueOf'', ''hasOwnProperty'',
      ''isPrototypeOf'', ''propertyIsEnumerable'', ''__proto__'', ''__defineGetter__'',
      ''__defineSetter__'', ''__lookupGetter__'', ''__lookupSetter__'']"

text \<open>
  With an inherited name the local \<open>url\<close> is \<open>undefined\<close>: the first key of a non-empty
  argument object makes \<open>url.includes\<close> throw, before the \<open>try\<close> block; otherwise \<open>fetch\<close> gets
  \<open>undefined\<close> as its URL and no method, which it reads as the text \<open>undefined\<close> and GET.
\<close>

definition request :: "env \<Rightarrow> string \<Rightarrow> args option \<Rightarrow> page \<Rightarrow> json outcome \<times> page" where
  "request e cmd a p =
     (if isTauri e then
        (case invoke e cmd a of
           Inr v \<Rightarrow> (Inr v, p)
         | Inl err \<Rightarrow> (Inl err, log_line (''Tauri Invoke Error ['' @ cmd @ '']:'') p))
      else
        (case map_of COMMAND_MAPPING cmd of
           Some mapping \<Rightarrow> send e cmd (build_request mapping a (apiKey e)) p
         | None \<Rightarrow>
             if cmd \<in> set object_prototype_names then
               (if entries a \<noteq> [] then
                  (Inl (JsError ''TypeError''
                     ''Cannot read properties of undefined (reading 'includes')''), p)
                else
                  send e cmd
                    \<lparr>req_url = ''undefined'', req_method = GET,
                     req_headers = make_headers (apiKey e), req_body = None\<rparr> p)
             else
               (Inl (JsError ''Error'' (''Command ['' @ cmd @ ''] not supported in Web mode.'')),
                log_line (''Command ['' @ cmd @ ''] is not yet mapped for Web mode. Failing.'') p)))"

subsection \<open>Calls in sequence, and sample surroundings\<close>

text \<open>
  A call is \<open>request(cmd, args)\<close> together with what it finds around it. Calls are run one
  after the other on the page.
\<close>

type_synonym call = "env \<times> string \<times> args option"

definition run_calls :: "call list \<Rightarrow> page \<Rightarrow> page" where
  "run_calls cs p = foldl (\<lambda>p' (e, cmd, a). snd (request e cmd a p')) p cs"

text \<open>
  The response a call of a command of the registry gets from the network on the remote path,
  if it gets one.
\<close>

definition remote_response :: "call \<Rightarrow> response option" where
  "remote_response c =
     (case c of (e, cmd, a) \<Rightarrow>
        if isTauri e then None
        else (case map_of COMMAND_MAPPING cmd of
                None \<Rightarrow> None
              | Some mapping \<Rightarrow>
                  (case fetch e (build_request mapping a (apiKey e)) of
                     Inl err \<Rightarrow> None
                   | Inr r \<Rightarrow> Some r)))"

definition unauthorized_call :: "call \<Rightarrow> bool" where
  "unauthorized_call c = (case remote_response c of Some r \<Rightarrow> status r = 401 | None \<Rightarrow> False)"

definition call_time :: "call \<Rightarrow> int" where
  "call_time c = now (fst c)"

definition fresh_page :: page where
  "fresh_page = \<lparr>lastAuthErrorTime = None, dispatched = [], console_lines = [], fetched = []\<rparr>"

text \<open>A browser in which the network answers every request with the given response.\<close>

definition web_env :: "response \<Rightarrow> int \<Rightarrow> env" where
  "web_env r t =
     \<lparr>isTauri = False, invoke = (\<lambda>cmd a. Inl (JsError ''Error'' ''no embedding'')),
      apiKey = None, fetch = (\<lambda>rq. Inr r), now = t\<rparr>"

text \<open>A native embedding whose call interface gives the same outcome for every command.\<close>

definition native_env :: "json outcome \<Rightarrow> env" where
  "native_env res =
     \<lparr>isTauri = True, invoke = (\<lambda>cmd a. res), apiKey = None,
      fetch = (\<lambda>rq. Inl (JsError ''TypeError'' ''Failed to fetch'')), now = 0\<rparr>"

text \<open>
  What a wrapper of class \<open>TransportError\<close> would look like among the thrown values: an
  error object of that class. (The source declares no such class.)
\<close>

definition is_TransportError :: "thrown \<Rightarrow> bool" where
  "is_TransportError t = (case t of JsError name msg \<Rightarrow> name = ''TransportError'' | Value v \<Rightarrow> False)"

text \<open>A remote call at time \<open>t\<close> that the service answers with status 401.\<close>

definition call_401 :: "int \<Rightarrow> call" where
  "call_401 t = (web_env \<lparr>status = 401, body_text = ''Unauthorized'', body_json = None\<rparr> t, ''list_accounts'', None)"

subsection \<open>Path templates and query strings, as specifications\<close>

text \<open>
  \<open>s.split(sep)\<close> for a one-character separator.
\<close>

fun split :: "char \<Rightarrow> string \<Rightarrow> string list" where
  "split sep [] = [[]]"
| "split sep (c # cs) =
     (if c = sep then [] # split sep cs
      else (case split sep cs of x # xs \<Rightarrow> (c # x) # xs | [] \<Rightarrow> [[c]]))"

text \<open>
  A path template read the way its author wrote it: the segments between the slashes. A
  segment that starts with a colon is a placeholder, the rest of it is its name.
\<close>

definition segments :: "string \<Rightarrow> string list" where
  "segments u = split (CHR ''/'') u"

definition is_placeholder :: "string \<Rightarrow> bool" where
  "is_placeholder seg = (case seg of c # n \<Rightarrow> c = CHR '':'' | [] \<Rightarrow> False)"

definition placeholder_names :: "string \<Rightarrow> string list" where
  "placeholder_names u = map tl (filter is_placeholder (segments u))"

text \<open>
  A template is well formed when a colon stands only at the start of a segment and no
  placeholder occurs twice.
\<close>

definition wf_template :: "string \<Rightarrow> bool" where
  "wf_template u \<longleftrightarrow>
     list_all (\<lambda>seg. CHR '':'' \<notin> set (tl seg)) (segments u) \<and> distinct (placeholder_names u)"

text \<open>
  The path a template stands for under an argument object: a placeholder whose name is a
  key becomes the encoded text of that key's value, every other segment stays as it is.
\<close>

definition fill :: "args \<Rightarrow> string \<Rightarrow> string" where
  "fill a seg =
     (if is_placeholder seg
      then (case map_of a (tl seg) of
              Some v \<Rightarrow> encodeURIComponent (js_String v)
            | None \<Rightarrow> seg)
      else seg)"

definition instantiate :: "string \<Rightarrow> args \<Rightarrow> string" where
  "instantiate u a = join (CHR ''/'') (map (fill a) (segments u))"

text \<open>
  The keys of an argument object fit a template when none holds a slash and none is a
  proper prefix of a placeholder's name.
\<close>

definition keys_fit :: "string \<Rightarrow> args \<Rightarrow> bool" where
  "keys_fit u a \<longleftrightarrow>
     list_all (\<lambda>key. CHR ''/'' \<notin> set key \<and>
        list_all (\<lambda>n. prefix key n \<longrightarrow> key = n) (placeholder_names u)) (map fst a)"

definition hex_chars :: "char set" where
  "hex_chars = set ''0123456789ABCDEF''"

text \<open>
  Replacing the first segment equal to \<open>p\<close>.
\<close>

fun replace_seg :: "string \<Rightarrow> string \<Rightarrow> string list \<Rightarrow> string list" where
  "replace_seg p r [] = []"
| "replace_seg p r (x # xs) = (if x = p then r # xs else x # replace_seg p r xs)"

definition key_exact :: "string \<Rightarrow> string list \<Rightarrow> bool" where
  "key_exact k segs \<longleftrightarrow> (\<forall>n. CHR '':'' # n \<in> set segs \<longrightarrow> prefix k n \<longrightarrow> k = n)"

definition colon_first :: "string list \<Rightarrow> bool" where
  "colon_first segs \<longleftrightarrow> (\<forall>seg\<in>set segs. CHR '':'' \<notin> set (tl seg))"

text \<open>
  One round of the substitution loop, on segments.
\<close>

definition step :: "args \<Rightarrow> string list \<Rightarrow> string \<Rightarrow> string list" where
  "step a segs k = replace_seg (CHR '':'' # k) (encodeURIComponent (js_String (property a k))) segs"

definition fill_keys :: "args \<Rightarrow> string list \<Rightarrow> string \<Rightarrow> string" where
  "fill_keys a ks seg =
     (if is_placeholder seg \<and> tl seg \<in> set ks
      then encodeURIComponent (js_String (property a (tl seg))) else seg)"

text \<open>
  Reading a query string back, the way the receiving side does: split at \<open>&\<close>, split each
  pair at its first \<open>=\<close>, turn \<open>+\<close> into a space and \<open>%XY\<close> into the byte it names.
\<close>

definition hex_value :: "char \<Rightarrow> nat" where
  "hex_value c = (if c \<in> set ''0123456789'' then of_char c - 48 else of_char c - 55)"

fun form_decode :: "string \<Rightarrow> string" where
  "form_decode (c # h # l # rest) =
     (if c = CHR ''%'' then char_of (16 * hex_value h + hex_value l) # form_decode rest
      else (if c = CHR ''+'' then CHR '' '' else c) # form_decode (h # l # rest))"
| "form_decode (c # cs) = (if c = CHR ''+'' then CHR '' '' else c) # form_decode cs"
| "form_decode [] = []"

definition parse_pair :: "string \<Rightarrow> string \<times> string" where
  "parse_pair s =
     (form_decode (takeWhile (\<lambda>c. c \<noteq> CHR ''='') s),
      form_decode (tl (dropWhile (\<lambda>c. c \<noteq> CHR ''='') s)))"

definition parse_query :: "string \<Rightarrow> (string \<times> string) list" where
  "parse_query qs = (if qs = [] then [] else map parse_pair (split (CHR ''&'') qs))"

text \<open>
  A response with status 204.
\<close>

definition no_content :: response where
  "no_content = \<lparr>status = 204, body_text = [], body_json = None\<rparr>"

section \<open>The log buffer\<close>

lemma logs_addLog:
  "logs (addLog x s) = drop (Suc (length (logs s)) - MAX_LOGS) (logs s @ [x])"
  by (simp add: addLog_def slice_last_def Let_def)


lemma store_set_store [simp]: "store (set_store f w) = f (store w)"
  by (simp add: set_store_def)

lemma listeners_set_store [simp]: "listeners (set_store f w) = listeners w"
  by (simp add: set_store_def)

lemma length_logs_addLog: "length (logs s) \<le> MAX_LOGS \<Longrightarrow> length (logs (addLog x s)) \<le> MAX_LOGS"
  by (simp add: logs_addLog)

lemma push_event_store:
  "store (push_event x w) = ((addLog x) ^^ length (listeners w)) (store w)"
proof -
  have "\<And>w. store (foldl (\<lambda>w' h. set_store (addLog x) w') w hs) = ((addLog x) ^^ length hs) (store w)" for hs :: "nat list"
    by (induction hs) (simp_all add: funpow_swap1)
  then show ?thesis by (simp add: push_event_def)
qed

lemma funpow_addLog_bounded:
  "length (logs s) \<le> MAX_LOGS \<Longrightarrow> length (logs (((addLog x) ^^ n) s)) \<le> MAX_LOGS"
  by (induction n) (simp_all add: length_logs_addLog)

lemma logs_loadLogs:
  "logs (store (snd (loadLogs b w))) =
     (case get_debug_console_logs b of Inr snapshot \<Rightarrow> snapshot | Inl e \<Rightarrow> logs (store w))"
  by (simp add: loadLogs_def call_invoke_def console_error_def set_store_def split: sum.splits)

lemma logs_clearLogs:
  "logs (store (snd (clearLogs b w))) =
     (case clear_debug_console_logs b of Inr u \<Rightarrow> [] | Inl e \<Rightarrow> logs (store w))"
  by (simp add: clearLogs_def call_invoke_def console_error_def set_store_def split: sum.splits)

lemma logs_enable:
  "logs (store (snd (enable b w))) =
     (case enable_debug_console b of
        Inl e \<Rightarrow> logs (store w)
      | Inr u \<Rightarrow> (case get_debug_console_logs b of Inr snapshot \<Rightarrow> snapshot | Inl e \<Rightarrow> logs (store w)))"
  by (simp add: enable_def loadLogs_def startListening_def call_invoke_def console_error_def set_store_def Let_def split: sum.splits option.splits prod.splits)

lemma logs_checkEnabled:
  "logs (store (snd (checkEnabled b w))) =
     (case is_debug_console_enabled b of
        Inr True \<Rightarrow> (case get_debug_console_logs b of Inr snapshot \<Rightarrow> snapshot | Inl e \<Rightarrow> logs (store w))
      | _ \<Rightarrow> logs (store w))"
  by (simp add: checkEnabled_def loadLogs_def startListening_def call_invoke_def console_error_def set_store_def Let_def split: sum.splits option.splits prod.splits bool.splits)

lemma logs_disable: "logs (store (snd (disable b w))) = logs (store w)"
  by (simp add: disable_def stopListening_def call_invoke_def console_error_def set_store_def Let_def split: sum.splits option.splits)

lemma perform_bounded:
  "length (logs (store w)) \<le> MAX_LOGS \<Longrightarrow> action_bounded a \<Longrightarrow>
   length (logs (store (perform a w))) \<le> MAX_LOGS"
  by (cases a)
     (auto simp: logs_loadLogs logs_clearLogs logs_enable logs_checkEnabled logs_disable
        push_event_store funpow_addLog_bounded length_logs_addLog snapshot_bounded_def
        split: sum.splits bool.splits)

lemma run_bounded:
  "length (logs (store w)) \<le> MAX_LOGS \<Longrightarrow> \<forall>a\<in>set as. action_bounded a \<Longrightarrow>
   length (logs (store (run as w))) \<le> MAX_LOGS"
  unfolding run_def
  by (induction as arbitrary: w) (simp_all add: perform_bounded)

text \<open>
  C2 (as amended). Along every history of the store in which each snapshot the backend
  delivers holds at most 5000 records, the buffer holds at most 5000 records after every
  action. \<open>addLog\<close> keeps the last 5000 records of the old buffer followed by the new record:
  it drops from the front and keeps the order of what stays, and on a buffer at or over the
  capacity the result holds exactly 5000 records. \<open>loadLogs\<close> installs the snapshot as it
  comes, without trimming it.
\<close>

theorem log_buffer_bounded:
  assumes "length (logs (store w)) \<le> MAX_LOGS"
    and "\<forall>a\<in>set as. action_bounded a"
    and "n \<le> length as"
  shows "length (logs (store (run (take n as) w))) \<le> MAX_LOGS \<and>
         logs (addLog x s) = drop (Suc (length (logs s)) - MAX_LOGS) (logs s @ [x]) \<and>
         (MAX_LOGS \<le> length (logs s) \<longrightarrow> length (logs (addLog x s)) = MAX_LOGS)"
proof (intro conjI impI)
  have "\<forall>a\<in>set (take n as). action_bounded a"
    using assms(2) by (meson in_set_takeD)
  with assms(1) show "length (logs (store (run (take n as) w))) \<le> MAX_LOGS"
    by (rule run_bounded)
next
  show "logs (addLog x s) = drop (Suc (length (logs s)) - MAX_LOGS) (logs s @ [x])"
    by (rule logs_addLog)
next
  assume "MAX_LOGS \<le> length (logs s)"
  then show "length (logs (addLog x s)) = MAX_LOGS"
    by (simp add: logs_addLog)
qed

theorem log_buffer_bounded_witness:
  "length (logs (store (run [LoadLogs (answering [sample_log 1, sample_log 2]), AddLog (sample_log 3),
       ClearLogs (answering []), Enable (answering [sample_log 4]), PushEvent (sample_log 5),
       CheckEnabled (answering [sample_log 6])] initial_world))) \<le> MAX_LOGS \<and>
   logs (addLog (sample_log 3) (initial_state\<lparr>logs := [sample_log 1, sample_log 2]\<rparr>))
     = [sample_log 1, sample_log 2, sample_log 3]"
proof -
  let ?as = "[LoadLogs (answering [sample_log 1, sample_log 2]), AddLog (sample_log 3),
       ClearLogs (answering []), Enable (answering [sample_log 4]), PushEvent (sample_log 5),
       CheckEnabled (answering [sample_log 6])]"
  have a: "length (logs (store initial_world)) \<le> MAX_LOGS"
    by (simp add: initial_world_def initial_state_def)
  have b: "\<forall>a\<in>set ?as. action_bounded a"
    by (simp add: snapshot_bounded_def answering_def MAX_LOGS_def)
  have c: "6 \<le> length ?as"
    by simp
  show ?thesis
    using log_buffer_bounded [OF a b c, of "sample_log 3" "initial_state\<lparr>logs := [sample_log 1, sample_log 2]\<rparr>"]
    by (simp add: MAX_LOGS_def)
qed

text \<open>
  C2 as stated fails: a snapshot of 5001 records, installed by \<open>loadLogs\<close>, leaves a buffer
  longer than the capacity.
\<close>

theorem oversized_snapshot_counterexample:
  "\<not> length (logs (store (run [LoadLogs (answering (replicate 5001 (sample_log 0)))] initial_world)))
       \<le> MAX_LOGS"
  by (simp add: run_def logs_loadLogs answering_def MAX_LOGS_def)


lemma slice_last_append:
  "slice_last n (slice_last n xs @ ys) = slice_last n (xs @ ys)"
proof -
  have eq: "drop (length xs - n) xs @ ys = drop (length xs - n) (xs @ ys)"
    by simp
  have "slice_last n (slice_last n xs @ ys)
      = drop (length (drop (length xs - n) (xs @ ys)) - n) (drop (length xs - n) (xs @ ys))"
    by (simp only: slice_last_def eq)
  also have "\<dots> = drop (length (drop (length xs - n) (xs @ ys)) - n + (length xs - n)) (xs @ ys)"
    by (simp only: drop_drop)
  also have "length (drop (length xs - n) (xs @ ys)) - n + (length xs - n) = length (xs @ ys) - n"
    by (simp only: length_drop length_append)
  finally show ?thesis by (simp only: slice_last_def)
qed

lemma logs_addLog_slice: "logs (addLog x s) = slice_last MAX_LOGS (logs s @ [x])"
  by (simp add: addLog_def slice_last_def Let_def)

lemma logs_fold_addLog:
  "length (logs s) \<le> MAX_LOGS \<Longrightarrow>
   logs (foldl (\<lambda>s' x. addLog x s') s xs) = slice_last MAX_LOGS (logs s @ xs)"
proof (induction xs arbitrary: s)
  case Nil
  then show ?case by (simp add: slice_last_def)
next
  case (Cons x xs)
  have "length (logs (addLog x s)) \<le> MAX_LOGS"
    using Cons.prems by (rule length_logs_addLog)
  then have "logs (foldl (\<lambda>s' x. addLog x s') (addLog x s) xs)
      = slice_last MAX_LOGS (logs (addLog x s) @ xs)"
    by (rule Cons.IH)
  also have "\<dots> = slice_last MAX_LOGS ((logs s @ [x]) @ xs)"
    by (simp only: logs_addLog_slice slice_last_append)
  finally show ?case by simp
qed

lemma push_event_single:
  "listeners w = [h] \<Longrightarrow> store (push_event x w) = addLog x (store w)"
  by (simp add: push_event_store)

lemma listeners_push_event [simp]: "listeners (push_event x w) = listeners w"
proof -
  have "\<And>w. listeners (foldl (\<lambda>w' h. set_store (addLog x) w') w hs) = listeners w" for hs :: "nat list"
    by (induction hs) simp_all
  then show ?thesis by (simp add: push_event_def)
qed

lemma store_push_events:
  "listeners w = [h] \<Longrightarrow>
   store (foldl (\<lambda>w' x. push_event x w') w xs) = foldl (\<lambda>s' x. addLog x s') (store w) xs"
  by (induction xs arbitrary: w) (simp_all add: push_event_single)

text \<open>
  C3. While one subscription is live a pushed record is appended by one call of \<open>addLog\<close>,
  which keeps the last 5000 records of the old buffer followed by the new record. On a
  buffer of exactly 5000 records that is the old buffer without its first record, followed
  by the new record: 5000 records again, the others in their old order. After any sequence
  of pushed records, on a buffer within the capacity, the buffer is the last 5000 records
  of the old buffer followed by the pushed ones, in the order of delivery, duplicates
  included; as long as the capacity is not exceeded it is the old buffer followed by all
  the pushed records.
\<close>

theorem addLog_full_buffer:
  assumes "length (logs (store w)) \<le> MAX_LOGS"
    and "listeners w = [h]"
  shows "(length (logs (store w)) = MAX_LOGS \<longrightarrow>
            logs (addLog x (store w)) = tl (logs (store w)) @ [x] \<and>
            length (logs (addLog x (store w))) = MAX_LOGS) \<and>
         logs (addLog x (store w)) = slice_last MAX_LOGS (logs (store w) @ [x]) \<and>
         store (push_event x w) = addLog x (store w) \<and>
         logs (store (foldl (\<lambda>w' y. push_event y w') w ys)) =
           slice_last MAX_LOGS (logs (store w) @ ys) \<and>
         (length (logs (store w)) + length ys \<le> MAX_LOGS \<longrightarrow>
            logs (store (foldl (\<lambda>w' y. push_event y w') w ys)) = logs (store w) @ ys)"
proof (intro conjI impI)
  assume full: "length (logs (store w)) = MAX_LOGS"
  then have ne: "logs (store w) \<noteq> []"
    by (auto simp: MAX_LOGS_def)
  from full show "logs (addLog x (store w)) = tl (logs (store w)) @ [x]"
    using ne by (simp add: logs_addLog drop_Suc Suc_diff_le MAX_LOGS_def)
  from full show "length (logs (addLog x (store w))) = MAX_LOGS"
    by (simp add: logs_addLog)
next
  show "logs (addLog x (store w)) = slice_last MAX_LOGS (logs (store w) @ [x])"
    by (rule logs_addLog_slice)
next
  from assms(2) show "store (push_event x w) = addLog x (store w)"
    by (rule push_event_single)
next
  from assms show all: "logs (store (foldl (\<lambda>w' y. push_event y w') w ys)) =
      slice_last MAX_LOGS (logs (store w) @ ys)"
    by (simp add: store_push_events logs_fold_addLog)
  assume "length (logs (store w)) + length ys \<le> MAX_LOGS"
  with all show "logs (store (foldl (\<lambda>w' y. push_event y w') w ys)) = logs (store w) @ ys"
    by (simp add: slice_last_def)
qed

theorem addLog_full_buffer_witness:
  "length (logs (store full_world)) = MAX_LOGS \<and>
   logs (addLog (sample_log 2) (store full_world)) = replicate 4999 (sample_log 1) @ [sample_log 2] \<and>
   logs (store (foldl (\<lambda>w' y. push_event y w') full_world [sample_log 2, sample_log 2, sample_log 3]))
     = replicate 4997 (sample_log 1) @ [sample_log 2, sample_log 2, sample_log 3] \<and>
   logs (store listening_world) = [sample_log 1] \<and>
   logs (store (foldl (\<lambda>w' y. push_event y w') listening_world [sample_log 2, sample_log 2, sample_log 3]))
     = [sample_log 1, sample_log 2, sample_log 2, sample_log 3]"
proof -
  have a: "length (logs (store full_world)) = MAX_LOGS"
    by (simp add: full_world_def MAX_LOGS_def)
  then have a': "length (logs (store full_world)) \<le> MAX_LOGS"
    by simp
  have b: "listeners full_world = [0]"
    by (simp add: full_world_def)
  have c: "replicate 4999 (sample_log 1) = sample_log 1 # sample_log 1 # replicate 4997 (sample_log 1)"
    by (simp add: replicate_Suc [symmetric] del: replicate_Suc)
  have l: "logs (store listening_world) = [sample_log 1]" "listeners listening_world = [0]"
    by (simp_all add: listening_world_def enable_def loadLogs_def startListening_def answering_def
        initial_world_def initial_state_def call_invoke_def set_store_def Let_def)
  then have l': "length (logs (store listening_world)) \<le> MAX_LOGS"
    by (simp add: MAX_LOGS_def)
  note full = addLog_full_buffer [OF a' b, of "sample_log 2" "[sample_log 2, sample_log 2, sample_log 3]"]
  note part = addLog_full_buffer [OF l' l(2), of "sample_log 2" "[sample_log 2, sample_log 2, sample_log 3]"]
  from full a have 1: "logs (addLog (sample_log 2) (store full_world))
      = replicate 4999 (sample_log 1) @ [sample_log 2]"
    by (simp add: full_world_def)
  from full have 2: "logs (store (foldl (\<lambda>w' y. push_event y w') full_world
        [sample_log 2, sample_log 2, sample_log 3]))
     = replicate 4997 (sample_log 1) @ [sample_log 2, sample_log 2, sample_log 3]"
    by (simp add: full_world_def slice_last_def MAX_LOGS_def c)
  from part have 3: "logs (store (foldl (\<lambda>w' y. push_event y w') listening_world
        [sample_log 2, sample_log 2, sample_log 3]))
     = [sample_log 1, sample_log 2, sample_log 2, sample_log 3]"
    by (simp add: l MAX_LOGS_def slice_last_def)
  show ?thesis
    by (intro conjI a 1 2 3 l(1))
qed

section \<open>The subscription and the actions of the store\<close>


lemma fst_loadLogs [simp]: "fst (loadLogs b w) = Inr ()"
  by (simp add: loadLogs_def Let_def split: sum.splits)

lemma fst_startListening [simp]: "fst (startListening b w) = Inr ()"
  by (simp add: startListening_def Let_def split: sum.splits option.splits)

lemma loadLogs_keeps_subscription:
  "unlistenFn (store (snd (loadLogs b w))) = unlistenFn (store w) \<and>
   listeners (snd (loadLogs b w)) = listeners w \<and>
   next_handle (snd (loadLogs b w)) = next_handle w"
  by (simp add: loadLogs_def call_invoke_def console_error_def set_store_def Let_def split: sum.splits)

lemma startListening_when_listening:
  "unlistenFn (store w) = Some h \<Longrightarrow> startListening b w = (Inr (), w)"
  by (simp add: startListening_def)

lemma enable_when_listening:
  assumes "unlistenFn (store w) = Some h"
  shows "enable b w =
     (Inr (),
      case enable_debug_console b of
        Inl e \<Rightarrow> console_error ''Failed to enable debug console:'' (call_invoke ''enable_debug_console'' w)
      | Inr u \<Rightarrow> snd (loadLogs b (set_store (\<lambda>s. s\<lparr>isEnabled := True\<rparr>) (call_invoke ''enable_debug_console'' w))))"
proof (cases "enable_debug_console b")
  case (Inl e)
  then show ?thesis by (simp add: enable_def)
next
  case (Inr u)
  let ?w2 = "set_store (\<lambda>s. s\<lparr>isEnabled := True\<rparr>) (call_invoke ''enable_debug_console'' w)"
  obtain w3 where l: "loadLogs b ?w2 = (Inr (), w3)"
    by (metis fst_loadLogs prod.collapse)
  have "unlistenFn (store w3) = Some h"
    using loadLogs_keeps_subscription [of b ?w2] l assms
    by (simp add: set_store_def call_invoke_def)
  then have "startListening b w3 = (Inr (), w3)"
    by (rule startListening_when_listening)
  with Inr l show ?thesis
    by (simp add: enable_def Let_def)
qed

lemma run_alone_unfold:
  "run_alone k b w =
     (case advance k b Start w of (p1, w1) \<Rightarrow>
      case advance k b p1 w1 of (p2, w2) \<Rightarrow>
      case advance k b p2 w2 of (p3, w3) \<Rightarrow>
      case advance k b p3 w3 of (p4, w4) \<Rightarrow>
      case advance k b p4 w4 of (p5, w5) \<Rightarrow> w5)"
  by (simp add: run_alone_def run_schedule_def resume_def split: prod.splits)

lemma enable_run_alone: "snd (enable b w) = run_alone EnableCall b w"
proof (cases "enable_debug_console b")
  case (Inl e)
  then show ?thesis
    by (simp add: run_alone_unfold enable_def)
next
  case enabled: (Inr u)
  show ?thesis
  proof (cases "unlistenFn (store w)")
    case (Some h)
    with enabled show ?thesis
      by (cases "get_debug_console_logs b")
         (simp_all add: run_alone_unfold enable_def loadLogs_def startListening_def
            call_invoke_def console_error_def set_store_def Let_def)
  next
    case None
    with enabled show ?thesis
      by (cases "get_debug_console_logs b"; cases "listen_log_event b")
         (simp_all add: run_alone_unfold enable_def loadLogs_def startListening_def
            call_invoke_def console_error_def set_store_def Let_def)
  qed
qed

lemma checkEnabled_run_alone: "snd (checkEnabled b w) = run_alone CheckEnabledCall b w"
proof (cases "is_debug_console_enabled b")
  case (Inl e)
  then show ?thesis
    by (simp add: run_alone_unfold checkEnabled_def)
next
  case answered: (Inr en)
  show ?thesis
  proof (cases en)
    case False
    with answered show ?thesis
      by (simp add: run_alone_unfold checkEnabled_def)
  next
    case True
    show ?thesis
    proof (cases "unlistenFn (store w)")
      case (Some h)
      with answered True show ?thesis
        by (cases "get_debug_console_logs b")
           (simp_all add: run_alone_unfold checkEnabled_def loadLogs_def startListening_def
              call_invoke_def console_error_def set_store_def Let_def)
    next
      case None
      with answered True show ?thesis
        by (cases "get_debug_console_logs b"; cases "listen_log_event b")
           (simp_all add: run_alone_unfold checkEnabled_def loadLogs_def startListening_def
              call_invoke_def console_error_def set_store_def Let_def)
    qed
  qed
qed

lemma advance_listening:
  assumes "unlistenFn (store w) = Some h" and "at \<noteq> AwaitListen"
  shows "fst (advance k b at w) \<noteq> AwaitListen \<and>
         unlistenFn (store (snd (advance k b at w))) = Some h \<and>
         listeners (snd (advance k b at w)) = listeners w"
  using assms
  by (cases k; cases at)
     (auto simp: call_invoke_def console_error_def set_store_def Let_def split: sum.splits)

lemma resume_listening:
  assumes "unlistenFn (store w) = Some h" and "\<forall>t\<in>set ts. \<not> past_guard t"
    and "resume i (w, ts) = (w', ts')"
  shows "unlistenFn (store w') = Some h \<and> listeners w' = listeners w \<and> (\<forall>t\<in>set ts'. \<not> past_guard t)"
proof (cases "i < length ts")
  case False
  with assms show ?thesis by (simp add: resume_def)
next
  case True
  obtain k b at where t: "ts ! i = (k, b, at)" by (cases "ts ! i")
  with True assms(2) have at: "at \<noteq> AwaitListen"
    by (metis nth_mem past_guard_def snd_conv)
  obtain at' w1 where a: "advance k b at w = (at', w1)" by (cases "advance k b at w")
  from advance_listening [OF assms(1) at, of k b] a
  have "at' \<noteq> AwaitListen" "unlistenFn (store w1) = Some h" "listeners w1 = listeners w"
    by simp_all
  moreover from True t a assms(3) have "w' = w1" "ts' = ts[i := (k, b, at')]"
    by (simp_all add: resume_def)
  moreover have "\<forall>t\<in>set (ts[i := (k, b, at')]). \<not> past_guard t"
    using assms(2) \<open>at' \<noteq> AwaitListen\<close>
    by (auto simp: past_guard_def dest!: set_update_subset_insert [THEN subsetD])
  ultimately show ?thesis by simp
qed

lemma run_schedule_listening:
  assumes "unlistenFn (store w) = Some h" and "\<forall>t\<in>set ts. \<not> past_guard t"
  shows "unlistenFn (store (fst (run_schedule sch (w, ts)))) = Some h \<and>
         listeners (fst (run_schedule sch (w, ts))) = listeners w"
  using assms
proof (induction sch arbitrary: w ts)
  case Nil
  then show ?case by (simp add: run_schedule_def)
next
  case (Cons i sch)
  obtain w' ts' where r: "resume i (w, ts) = (w', ts')" by (cases "resume i (w, ts)")
  from resume_listening [OF Cons.prems r]
  have "unlistenFn (store w') = Some h" "listeners w' = listeners w" "\<forall>t\<in>set ts'. \<not> past_guard t"
    by simp_all
  with Cons.IH [of w' ts'] r show ?case
    by (simp add: run_schedule_def)
qed

text \<open>
  C5 (as amended). Let a subscription be live: the store holds its handle and it is the one
  registration on the channel. Then \<open>enable\<close> opens no second subscription: handle and
  registration stay as they are, so a record pushed afterwards is appended by exactly one
  call of \<open>addLog\<close>. It is not a no-op: it sends the enable command again and, when that
  succeeds, sets \<open>isEnabled\<close>, fetches the snapshot and puts it in the place of the buffer.
  The same holds for any number of calls of \<open>enable\<close> and \<open>checkEnabled\<close> that start from here on,
  however their steps interleave, as long as none of them is already waiting for \<open>listen\<close>:
  after every schedule there is still the one handle and the one registration.
\<close>

theorem enable_while_listening:
  assumes "unlistenFn (store w) = Some h"
    and "listeners w = [h]"
  shows "unlistenFn (store (snd (enable b w))) = Some h \<and>
         listeners (snd (enable b w)) = [h] \<and>
         store (push_event x (snd (enable b w))) = addLog x (store (snd (enable b w))) \<and>
         invoked (snd (enable b w)) =
           invoked w @ (case enable_debug_console b of
                          Inl e \<Rightarrow> [''enable_debug_console'']
                        | Inr u \<Rightarrow> [''enable_debug_console'', ''get_debug_console_logs'']) \<and>
         logs (store (snd (enable b w))) =
           (case enable_debug_console b of
              Inl e \<Rightarrow> logs (store w)
            | Inr u \<Rightarrow> (case get_debug_console_logs b of
                         Inr snapshot \<Rightarrow> snapshot
                       | Inl e \<Rightarrow> logs (store w))) \<and>
         isEnabled (store (snd (enable b w))) =
           (case enable_debug_console b of Inl e \<Rightarrow> isEnabled (store w) | Inr u \<Rightarrow> True) \<and>
         snd (enable b w) = run_alone EnableCall b w \<and>
         ((\<forall>t\<in>set ts. \<not> past_guard t) \<longrightarrow>
            unlistenFn (store (fst (run_schedule sch (w, ts)))) = Some h \<and>
            listeners (fst (run_schedule sch (w, ts))) = [h] \<and>
            store (push_event x (fst (run_schedule sch (w, ts)))) =
              addLog x (store (fst (run_schedule sch (w, ts)))))"
proof -
  have h: "unlistenFn (store (snd (enable b w))) = Some h"
    using assms(1)
    by (simp add: enable_when_listening [OF assms(1)] loadLogs_def call_invoke_def console_error_def
        set_store_def Let_def split: sum.splits)
  have l: "listeners (snd (enable b w)) = [h]"
    using assms(2)
    by (simp add: enable_when_listening [OF assms(1)] loadLogs_def call_invoke_def console_error_def
        set_store_def Let_def split: sum.splits)
  have i: "invoked (snd (enable b w)) =
           invoked w @ (case enable_debug_console b of
                          Inl e \<Rightarrow> [''enable_debug_console'']
                        | Inr u \<Rightarrow> [''enable_debug_console'', ''get_debug_console_logs''])"
    by (simp add: enable_when_listening [OF assms(1)] loadLogs_def call_invoke_def console_error_def
        set_store_def Let_def split: sum.splits)
  have en: "isEnabled (store (snd (enable b w))) =
           (case enable_debug_console b of Inl e \<Rightarrow> isEnabled (store w) | Inr u \<Rightarrow> True)"
    by (simp add: enable_when_listening [OF assms(1)] loadLogs_def call_invoke_def console_error_def
        set_store_def Let_def split: sum.splits)
  have old: "unlistenFn (store (snd (enable b w))) = Some h \<and>
         listeners (snd (enable b w)) = [h] \<and>
         store (push_event x (snd (enable b w))) = addLog x (store (snd (enable b w))) \<and>
         invoked (snd (enable b w)) =
           invoked w @ (case enable_debug_console b of
                          Inl e \<Rightarrow> [''enable_debug_console'']
                        | Inr u \<Rightarrow> [''enable_debug_console'', ''get_debug_console_logs'']) \<and>
         logs (store (snd (enable b w))) =
           (case enable_debug_console b of
              Inl e \<Rightarrow> logs (store w)
            | Inr u \<Rightarrow> (case get_debug_console_logs b of
                         Inr snapshot \<Rightarrow> snapshot
                       | Inl e \<Rightarrow> logs (store w)))"
    using h l i by (simp add: push_event_single logs_enable)
  have sched: "unlistenFn (store (fst (run_schedule sch (w, ts)))) = Some h \<and>
            listeners (fst (run_schedule sch (w, ts))) = [h] \<and>
            store (push_event x (fst (run_schedule sch (w, ts)))) =
              addLog x (store (fst (run_schedule sch (w, ts))))"
    if "\<forall>t\<in>set ts. \<not> past_guard t"
    using run_schedule_listening [OF assms(1) that, of sch] assms(2)
    by (simp add: push_event_single)
  from old en enable_run_alone [of b w] sched show ?thesis
    by blast
qed

lemma listening_world_eq:
  "listening_world =
     \<lparr>store = initial_state\<lparr>isEnabled := True, logs := [sample_log 1], unlistenFn := Some 0\<rparr>,
      listeners = [0], next_handle = 1,
      invoked = [''enable_debug_console'', ''get_debug_console_logs''], console = []\<rparr>"
  by (simp add: listening_world_def enable_def loadLogs_def startListening_def answering_def
      initial_world_def initial_state_def call_invoke_def set_store_def Let_def)

theorem enable_while_listening_witness:
  "unlistenFn (store listening_world) = Some 0 \<and> listeners listening_world = [0] \<and>
   listeners (snd (enable (answering [sample_log 2]) listening_world)) = [0] \<and>
   isEnabled (store (snd (enable (answering [sample_log 2]) listening_world))) \<and>
   logs (store (push_event (sample_log 3) (snd (enable (answering [sample_log 2]) listening_world))))
     = [sample_log 2, sample_log 3] \<and>
   listeners (fst (run_schedule [0, 1, 0, 1, 0, 1, 0, 1, 0, 1]
     (listening_world, [(EnableCall, answering [], Start), (CheckEnabledCall, answering [], Start)])))
     = [0]"
proof -
  have a: "unlistenFn (store listening_world) = Some 0"
    by (simp add: listening_world_eq)
  have b: "listeners listening_world = [0]"
    by (simp add: listening_world_eq)
  note t = enable_while_listening [OF a b, where b = "answering [sample_log 2]" and x = "sample_log 3"
      and ts = "[(EnableCall, answering [], Start), (CheckEnabledCall, answering [], Start)]"
      and sch = "[0, 1, 0, 1, 0, 1, 0, 1, 0, 1]"]
  note r1 = t [THEN conjunct2]
  note r2 = r1 [THEN conjunct2]
  note r3 = r2 [THEN conjunct2]
  note r4 = r3 [THEN conjunct2]
  note r5 = r4 [THEN conjunct2]
  note r6 = r5 [THEN conjunct2]
  note r7 = r6 [THEN conjunct2]
  have 1: "listeners (snd (enable (answering [sample_log 2]) listening_world)) = [0]"
    by (rule r1 [THEN conjunct1])
  from r5 [THEN conjunct1]
  have 2: "isEnabled (store (snd (enable (answering [sample_log 2]) listening_world)))"
    by (simp add: answering_def)
  from r4 [THEN conjunct1]
  have "logs (store (snd (enable (answering [sample_log 2]) listening_world))) = [sample_log 2]"
    by (simp add: answering_def)
  with r2 [THEN conjunct1]
  have 3: "logs (store (push_event (sample_log 3)
      (snd (enable (answering [sample_log 2]) listening_world)))) = [sample_log 2, sample_log 3]"
    by (simp add: logs_addLog MAX_LOGS_def)
  have "\<forall>t\<in>set [(EnableCall, answering [], Start), (CheckEnabledCall, answering [], Start)].
      \<not> past_guard t"
    by (simp add: past_guard_def)
  with r7
  have 4: "listeners (fst (run_schedule [0, 1, 0, 1, 0, 1, 0, 1, 0, 1]
     (listening_world, [(EnableCall, answering [], Start), (CheckEnabledCall, answering [], Start)])))
     = [0]"
    by blast
  show ?thesis
    by (intro conjI a b 1 2 3 4)
qed

text \<open>
  C5 as stated fails, twice over. In the Listening state reached by one \<open>enable\<close>, a second
  \<open>enable\<close> that finds an empty snapshot at the backend empties the buffer and has sent two
  more commands: it is not a no-op. And two calls of \<open>enable\<close> on a fresh page that overlap,
  the second reading \<open>unlistenFn\<close> before \<open>listen\<close> has resolved for the first, both register:
  two registrations are live, the store holds only the later handle, and one pushed record
  is appended twice. Run one after the other, the same two calls leave one registration.
\<close>

theorem enable_not_noop_counterexample:
  "snd (enable (answering []) listening_world) \<noteq> listening_world \<and>
   logs (store listening_world) = [sample_log 1] \<and>
   logs (store (snd (enable (answering []) listening_world))) = [] \<and>
   invoked (snd (enable (answering []) listening_world)) =
     invoked listening_world @ [''enable_debug_console'', ''get_debug_console_logs''] \<and>
   listeners (fst (run_schedule [0, 0, 0, 0, 1, 1, 1, 1, 0, 1] two_enables)) = [0, 1] \<and>
   unlistenFn (store (fst (run_schedule [0, 0, 0, 0, 1, 1, 1, 1, 0, 1] two_enables))) = Some 1 \<and>
   logs (store (push_event (sample_log 3)
      (fst (run_schedule [0, 0, 0, 0, 1, 1, 1, 1, 0, 1] two_enables))))
     = [sample_log 3, sample_log 3] \<and>
   listeners (fst (run_schedule [0, 0, 0, 0, 0, 1, 1, 1, 1, 1] two_enables)) = [0]"
proof -
  have l: "logs (store listening_world) = [sample_log 1]"
    by (simp add: listening_world_eq)
  have e: "logs (store (snd (enable (answering []) listening_world))) = []"
    by (simp add: logs_enable answering_def)
  have i: "invoked (snd (enable (answering []) listening_world)) =
     invoked listening_world @ [''enable_debug_console'', ''get_debug_console_logs'']"
    by (simp add: listening_world_eq enable_def loadLogs_def startListening_def answering_def
      initial_state_def call_invoke_def set_store_def Let_def)
  from l e have n: "snd (enable (answering []) listening_world) \<noteq> listening_world"
    by auto
  have o1: "listeners (fst (run_schedule [0, 0, 0, 0, 1, 1, 1, 1, 0, 1] two_enables)) = [0, 1]"
    by code_simp
  have o2: "unlistenFn (store (fst (run_schedule [0, 0, 0, 0, 1, 1, 1, 1, 0, 1] two_enables))) = Some 1"
    by code_simp
  have o3: "logs (store (push_event (sample_log 3)
      (fst (run_schedule [0, 0, 0, 0, 1, 1, 1, 1, 0, 1] two_enables))))
     = [sample_log 3, sample_log 3]"
    by code_simp
  have o4: "listeners (fst (run_schedule [0, 0, 0, 0, 0, 1, 1, 1, 1, 1] two_enables)) = [0]"
    by code_simp
  show ?thesis
    by (intro conjI n l e i o1 o2 o3 o4)
qed

text \<open>
  C9. After \<open>disable\<close> (whatever its outcome) and an \<open>enable\<close> whose enable command and
  snapshot fetch both succeed, the buffer is the snapshot that fetch returned: nothing of
  the old buffer is left.
\<close>

theorem disable_enable_snapshot:
  assumes "enable_debug_console b2 = Inr u"
    and "get_debug_console_logs b2 = Inr snapshot"
  shows "logs (store (snd (enable b2 (snd (disable b1 w))))) = snapshot"
  using assms by (simp add: logs_enable)

theorem disable_enable_snapshot_witness:
  "logs (store listening_world) = [sample_log 1] \<and>
   logs (store (snd (enable (answering [sample_log 7, sample_log 8])
     (snd (disable (answering []) listening_world))))) = [sample_log 7, sample_log 8]"
proof -
  have a: "enable_debug_console (answering [sample_log 7, sample_log 8]) = Inr ()"
    by (simp add: answering_def)
  have b: "get_debug_console_logs (answering [sample_log 7, sample_log 8]) = Inr [sample_log 7, sample_log 8]"
    by (simp add: answering_def)
  show ?thesis
    using disable_enable_snapshot [OF a b, of "answering []" listening_world]
    by (simp add: listening_world_eq)
qed

text \<open>
  C10. \<open>clearLogs\<close> always sends the clear command and always completes normally. When the
  command fails the store is left as it was and one line goes to the console; when it
  succeeds the buffer is emptied and nothing else changes. So the buffer changes only if
  the command succeeded.
\<close>

theorem clearLogs_atomic:
  "fst (clearLogs b w) = Inr () \<and>
   invoked (snd (clearLogs b w)) = invoked w @ [''clear_debug_console_logs''] \<and>
   (\<forall>e. clear_debug_console_logs b = Inl e \<longrightarrow>
      store (snd (clearLogs b w)) = store w \<and>
      console (snd (clearLogs b w)) = console w @ [''Failed to clear logs:'']) \<and>
   (\<forall>u. clear_debug_console_logs b = Inr u \<longrightarrow>
      store (snd (clearLogs b w)) = (store w)\<lparr>logs := []\<rparr>) \<and>
   (logs (store (snd (clearLogs b w))) \<noteq> logs (store w) \<longrightarrow>
      (\<exists>u. clear_debug_console_logs b = Inr u))"
  by (cases "clear_debug_console_logs b")
     (simp_all add: clearLogs_def call_invoke_def console_error_def set_store_def Let_def)

theorem clearLogs_atomic_witness:
  "store (snd (clearLogs (failing (Value (JStr ''offline''))) listening_world)) = store listening_world \<and>
   logs (store (snd (clearLogs (failing (Value (JStr ''offline''))) listening_world))) = [sample_log 1] \<and>
   fst (clearLogs (failing (Value (JStr ''offline''))) listening_world) = Inr () \<and>
   logs (store (snd (clearLogs (answering []) listening_world))) = []"
  using clearLogs_atomic [of "failing (Value (JStr ''offline''))" listening_world]
    clearLogs_atomic [of "answering []" listening_world]
  by (simp add: failing_def answering_def listening_world_eq)

section \<open>The unauthorized notification\<close>


lemma request_remote:
  assumes "remote_response (e, cmd, a) = Some r"
  shows "\<exists>mapping. map_of COMMAND_MAPPING cmd = Some mapping \<and>
     request e cmd a p =
       (let p1 = p\<lparr>fetched := fetched p @ [build_request mapping a (apiKey e)]\<rparr> in
        case handle_response e cmd r p1 of
          (Inl err, p2) \<Rightarrow> (Inl err, log_line (''Web Fetch Error ['' @ cmd @ '']:'') p2)
        | (Inr v, p2) \<Rightarrow> (Inr v, p2))"
  using assms
  by (auto simp: remote_response_def request_def send_def Let_def split: if_splits option.splits sum.splits)

lemma remote_not_native: "remote_response (e, cmd, a) = Some r \<Longrightarrow> \<not> isTauri e"
  by (auto simp: remote_response_def split: if_splits)

lemma dispatched_request_401:
  assumes "unauthorized_call (e, cmd, a)"
  shows "dispatched (snd (request e cmd a p)) =
           (if now e - lastAuthError p > 2000 then dispatched p @ [''abv-unauthorized''] else dispatched p) \<and>
         lastAuthError (snd (request e cmd a p)) =
           (if now e - lastAuthError p > 2000 then now e else lastAuthError p)"
proof -
  from assms obtain r where r: "remote_response (e, cmd, a) = Some r" and s: "status r = 401"
    by (auto simp: unauthorized_call_def split: option.splits)
  from r have n: "\<not> isTauri e" by (rule remote_not_native)
  from s have k: "\<not> response_ok r" by (simp add: response_ok_def)
  from request_remote [OF r, of p] obtain mapping where
    "request e cmd a p =
       (let p1 = p\<lparr>fetched := fetched p @ [build_request mapping a (apiKey e)]\<rparr> in
        case handle_response e cmd r p1 of
          (Inl err, p2) \<Rightarrow> (Inl err, log_line (''Web Fetch Error ['' @ cmd @ '']:'') p2)
        | (Inr v, p2) \<Rightarrow> (Inr v, p2))"
    by blast
  then show ?thesis
    using n s k
    by (simp add: handle_response_def notify_unauthorized_def lastAuthError_def log_line_def Let_def)
qed

lemma run_calls_Cons: "run_calls ((e, cmd, a) # cs) p = run_calls cs (snd (request e cmd a p))"
  by (simp add: run_calls_def)

lemma run_calls_append: "run_calls (cs @ ds) p = run_calls ds (run_calls cs p)"
  by (simp add: run_calls_def)

lemma quiet_window:
  assumes "\<forall>c\<in>set cs. unauthorized_call c \<and> call_time c - lastAuthError p \<le> 2000"
  shows "dispatched (run_calls cs p) = dispatched p \<and> lastAuthError (run_calls cs p) = lastAuthError p"
  using assms
proof (induction cs arbitrary: p)
  case Nil
  then show ?case by (simp add: run_calls_def)
next
  case (Cons c cs)
  obtain e cmd a where c: "c = (e, cmd, a)" by (cases c)
  from Cons.prems c have u: "unauthorized_call (e, cmd, a)" and t: "now e - lastAuthError p \<le> 2000"
    by (simp_all add: call_time_def)
  let ?p = "snd (request e cmd a p)"
  from dispatched_request_401 [OF u, of p] t
  have d: "dispatched ?p = dispatched p" and l: "lastAuthError ?p = lastAuthError p"
    by simp_all
  from Cons.prems l have "\<forall>c\<in>set cs. unauthorized_call c \<and> call_time c - lastAuthError ?p \<le> 2000"
    by simp
  from Cons.IH [OF this] d l c show ?case
    by (simp add: run_calls_Cons)
qed

text \<open>
  C4. Let a remote call answered with 401 come more than 2000 ms after the last
  notification (on a fresh page: at a clock reading above 2000). It fires one
  notification. However many calls answered with 401 follow within 2000 ms of it, none
  of them fires; the next such call that comes more than 2000 ms after it fires the
  second one. So two failing calls 500 ms apart give one notification and two failing
  calls 2500 ms apart give two.
\<close>

theorem unauthorized_debounce:
  assumes "unauthorized_call c1"
    and "call_time c1 - lastAuthError p > 2000"
    and "\<forall>c\<in>set cs. unauthorized_call c \<and> call_time c - call_time c1 \<le> 2000"
    and "unauthorized_call c2"
    and "call_time c2 - call_time c1 > 2000"
  shows "dispatched (run_calls (c1 # cs) p) = dispatched p @ [''abv-unauthorized''] \<and>
         dispatched (run_calls (c1 # cs @ [c2]) p) =
           dispatched p @ [''abv-unauthorized'', ''abv-unauthorized'']"
proof -
  obtain e cmd a where c1: "c1 = (e, cmd, a)" by (cases c1)
  obtain e' cmd' a' where c2: "c2 = (e', cmd', a')" by (cases c2)
  let ?p1 = "snd (request e cmd a p)"
  from assms(1,2) c1 dispatched_request_401 [of e cmd a p]
  have d1: "dispatched ?p1 = dispatched p @ [''abv-unauthorized'']"
    and l1: "lastAuthError ?p1 = call_time c1"
    by (simp_all add: call_time_def)
  from assms(3) l1 have "\<forall>c\<in>set cs. unauthorized_call c \<and> call_time c - lastAuthError ?p1 \<le> 2000"
    by simp
  from quiet_window [OF this]
  have d2: "dispatched (run_calls cs ?p1) = dispatched ?p1"
    and l2: "lastAuthError (run_calls cs ?p1) = lastAuthError ?p1"
    by simp_all
  have a: "dispatched (run_calls (c1 # cs) p) = dispatched p @ [''abv-unauthorized'']"
    using d1 d2 c1 by (simp add: run_calls_Cons)
  from assms(4,5) c2 l1 l2 dispatched_request_401 [of e' cmd' a' "run_calls cs ?p1"]
  have "dispatched (snd (request e' cmd' a' (run_calls cs ?p1))) =
          dispatched (run_calls cs ?p1) @ [''abv-unauthorized'']"
    by (simp add: call_time_def)
  then have "dispatched (run_calls (c1 # cs @ [c2]) p) =
           dispatched p @ [''abv-unauthorized'', ''abv-unauthorized'']"
    using d1 d2 c1 c2 by (simp add: run_calls_Cons run_calls_append run_calls_def)
  with a show ?thesis by simp
qed

lemma unauthorized_call_401: "unauthorized_call (call_401 t)"
  by (simp add: call_401_def unauthorized_call_def remote_response_def web_env_def COMMAND_MAPPING_def)

lemma call_time_401: "call_time (call_401 t) = t"
  by (simp add: call_401_def call_time_def web_env_def)

theorem unauthorized_debounce_witness:
  "dispatched (run_calls [call_401 1700000000000, call_401 1700000000500] fresh_page)
     = [''abv-unauthorized''] \<and>
   dispatched (run_calls [call_401 1700000000000, call_401 1700000002500] fresh_page)
     = [''abv-unauthorized'', ''abv-unauthorized''] \<and>
   dispatched (run_calls [call_401 1700000000000, call_401 1700000000500, call_401 1700000001000,
       call_401 1700000002000, call_401 1700000002001] fresh_page)
     = [''abv-unauthorized'', ''abv-unauthorized'']"
proof -
  have f: "call_time (call_401 1700000000000) - lastAuthError fresh_page > 2000"
    by (simp add: call_time_401 lastAuthError_def fresh_page_def)
  have a: "\<forall>c\<in>set [call_401 1700000000500].
      unauthorized_call c \<and> call_time c - call_time (call_401 1700000000000) \<le> 2000"
    by (simp add: call_time_401 unauthorized_call_401)
  have b: "\<forall>c\<in>set [].
      unauthorized_call c \<and> call_time c - call_time (call_401 1700000000000) \<le> 2000"
    by simp
  have c: "\<forall>c\<in>set [call_401 1700000000500, call_401 1700000001000, call_401 1700000002000].
      unauthorized_call c \<and> call_time c - call_time (call_401 1700000000000) \<le> 2000"
    by (simp add: call_time_401 unauthorized_call_401)
  have l: "call_time (call_401 1700000002500) - call_time (call_401 1700000000000) > 2000"
    by (simp add: call_time_401)
  have l': "call_time (call_401 1700000002001) - call_time (call_401 1700000000000) > 2000"
    by (simp add: call_time_401)
  have d: "dispatched fresh_page = []"
    by (simp add: fresh_page_def)
  show ?thesis
    using unauthorized_debounce [OF unauthorized_call_401 f a unauthorized_call_401 l]
      unauthorized_debounce [OF unauthorized_call_401 f b unauthorized_call_401 l]
      unauthorized_debounce [OF unauthorized_call_401 f c unauthorized_call_401 l']
    by (simp add: d)
qed

section \<open>The native path and the normalization of responses\<close>


text \<open>
  C6 (as amended). In the native embedding \<open>request\<close> hands command and arguments to the
  call interface and completes the way that call completes: with its result, or with the
  very value it threw, after one diagnostic line on the console. Nothing is wrapped, no
  HTTP request is made and no event is dispatched.
\<close>

theorem native_passthrough:
  assumes "isTauri e"
  shows "fst (request e cmd a p) = invoke e cmd a \<and>
         fetched (snd (request e cmd a p)) = fetched p \<and>
         dispatched (snd (request e cmd a p)) = dispatched p \<and>
         console_lines (snd (request e cmd a p)) =
           console_lines p @
           (case invoke e cmd a of
              Inl err \<Rightarrow> [''Tauri Invoke Error ['' @ cmd @ '']:'']
            | Inr v \<Rightarrow> [])"
  using assms by (simp add: request_def log_line_def split: sum.splits)

theorem native_passthrough_witness:
  "fst (request (native_env (Inr (JBool True))) ''is_auto_launch_enabled'' None fresh_page) = Inr (JBool True) \<and>
   fst (request (native_env (Inl (Value (JStr ''boom'')))) ''is_auto_launch_enabled'' None fresh_page)
     = Inl (Value (JStr ''boom'')) \<and>
   console_lines (snd (request (native_env (Inl (Value (JStr ''boom'')))) ''is_auto_launch_enabled'' None fresh_page))
     = [''Tauri Invoke Error [is_auto_launch_enabled]:'']"
proof -
  have a: "isTauri (native_env r)" for r
    by (simp add: native_env_def)
  show ?thesis
    using native_passthrough [OF a, of "Inr (JBool True)" "''is_auto_launch_enabled''" None fresh_page]
      native_passthrough [OF a, of "Inl (Value (JStr ''boom''))" "''is_auto_launch_enabled''" None fresh_page]
    by (simp add: native_env_def fresh_page_def)
qed

text \<open>
  C6 as stated fails: when the call interface throws the string \<open>boom\<close>, the caller gets the
  string \<open>boom\<close>, not an error of class \<open>TransportError\<close>.
\<close>

theorem native_error_not_wrapped_counterexample:
  "fst (request (native_env (Inl (Value (JStr ''boom'')))) ''list_accounts'' None fresh_page)
     = Inl (Value (JStr ''boom'')) \<and>
   \<not> is_TransportError (Value (JStr ''boom''))"
  by (simp add: request_def native_env_def is_TransportError_def)

lemma handle_response_ok:
  assumes "response_ok r"
  shows "handle_response e cmd r p =
     (if status r = 204 \<or> body_text r = [] then (Inr JNull, p)
      else case body_json r of
             Some j \<Rightarrow> (Inr j, p)
           | None \<Rightarrow> (Inr (JStr (body_text r)),
               log_line (''Failed to parse JSON response for ['' @ cmd @ '']:'') p))"
  using assms by (simp add: handle_response_def)

lemma handle_response_not_ok:
  assumes "\<not> response_ok r"
  shows "fst (handle_response e cmd r p) =
     Inl (error_of (case body_json r of Some j \<Rightarrow> j | None \<Rightarrow> JObj []) (status r))"
  using assms by (simp add: handle_response_def Let_def)

lemma fst_request_remote:
  assumes "remote_response (e, cmd, a) = Some r"
  shows "\<exists>p1. fst (request e cmd a p) = fst (handle_response e cmd r p1)"
proof -
  from request_remote [OF assms, of p] obtain mapping where
    "request e cmd a p =
       (let p1 = p\<lparr>fetched := fetched p @ [build_request mapping a (apiKey e)]\<rparr> in
        case handle_response e cmd r p1 of
          (Inl err, p2) \<Rightarrow> (Inl err, log_line (''Web Fetch Error ['' @ cmd @ '']:'') p2)
        | (Inr v, p2) \<Rightarrow> (Inr v, p2))"
    by blast
  then have "fst (request e cmd a p) =
      fst (handle_response e cmd r (p\<lparr>fetched := fetched p @ [build_request mapping a (apiKey e)]\<rparr>))"
    by (simp add: Let_def split: prod.splits sum.splits)
  then show ?thesis ..
qed

text \<open>
  C8 (as amended). For a remote call of a registry command whose response has a status from
  200 to 299: the result is \<open>null\<close> when the status is 204 or the body is empty, the parsed
  value when the body is valid JSON, and the body as a string when it is not; in every one
  of these cases the call completes normally. With any other status the call fails,
  whatever the body: with a \<open>TypeError\<close> when the body is the JSON value \<open>null\<close>, with the
  value of the body's \<open>error\<close> field when the body is a JSON object and that value is truthy,
  and with the text \<open>HTTP Error\<close> and the status in every other case.
\<close>

theorem response_normalization:
  assumes "remote_response (e, cmd, a) = Some r"
  shows "(response_ok r \<and> (status r = 204 \<or> body_text r = []) \<longrightarrow>
            fst (request e cmd a p) = Inr JNull) \<and>
         (response_ok r \<and> status r \<noteq> 204 \<and> body_text r \<noteq> [] \<and> body_json r = None \<longrightarrow>
            fst (request e cmd a p) = Inr (JStr (body_text r))) \<and>
         (\<forall>j. response_ok r \<and> status r \<noteq> 204 \<and> body_text r \<noteq> [] \<and> body_json r = Some j \<longrightarrow>
            fst (request e cmd a p) = Inr j) \<and>
         (response_ok r \<longrightarrow> (\<exists>v. fst (request e cmd a p) = Inr v)) \<and>
         (\<not> response_ok r \<longrightarrow> (\<exists>err. fst (request e cmd a p) = Inl err)) \<and>
         (\<not> response_ok r \<and> body_json r = Some JNull \<longrightarrow>
            (\<exists>m. fst (request e cmd a p) = Inl (JsError ''TypeError'' m))) \<and>
         (\<forall>kvs v. \<not> response_ok r \<and> body_json r = Some (JObj kvs) \<and>
              map_of kvs ''error'' = Some v \<and> truthy v \<longrightarrow>
            fst (request e cmd a p) = Inl (Value v)) \<and>
         (\<not> response_ok r \<and> body_json r \<noteq> Some JNull \<and>
          (\<forall>kvs v. body_json r = Some (JObj kvs) \<and> map_of kvs ''error'' = Some v \<longrightarrow> \<not> truthy v) \<longrightarrow>
            fst (request e cmd a p) = Inl (Value (JStr (''HTTP Error '' @ show_nat (status r)))))"
proof -
  from fst_request_remote [OF assms, of p] obtain p1 where
    eq: "fst (request e cmd a p) = fst (handle_response e cmd r p1)"
    by blast
  have good: "fst (handle_response e cmd r p1) =
      Inr (if status r = 204 \<or> body_text r = [] then JNull
           else case body_json r of Some j \<Rightarrow> j | None \<Rightarrow> JStr (body_text r))"
    if "response_ok r"
    by (simp add: handle_response_ok [OF that] split: option.splits)
  have bad: "fst (handle_response e cmd r p1) =
      Inl (error_of (case body_json r of Some j \<Rightarrow> j | None \<Rightarrow> JObj []) (status r))"
    if "\<not> response_ok r"
    using that by (rule handle_response_not_ok)
  have generic: "error_of (case body_json r of Some j \<Rightarrow> j | None \<Rightarrow> JObj []) (status r) =
      Value (JStr (''HTTP Error '' @ show_nat (status r)))"
    if "body_json r \<noteq> Some JNull"
      and "\<forall>kvs v. body_json r = Some (JObj kvs) \<and> map_of kvs ''error'' = Some v \<longrightarrow> \<not> truthy v"
    using that by (auto simp: error_of_def Let_def split: option.splits json.splits)
  show ?thesis
  proof (cases "response_ok r")
    case True
    with good show ?thesis
      by (auto simp: eq)
  next
    case False
    with bad generic show ?thesis
      by (auto simp: eq error_of_def Let_def)
  qed
qed

lemma remote_response_call_with: "remote_response (web_env r t, ''get_proxy_status'', None) = Some r"
  by (simp add: remote_response_def web_env_def COMMAND_MAPPING_def)

theorem response_normalization_witness:
  "fst (request (web_env \<lparr>status = 204, body_text = ''ignored'', body_json = None\<rparr> 0)
         ''get_proxy_status'' None fresh_page) = Inr JNull \<and>
   fst (request (web_env \<lparr>status = 200, body_text = [], body_json = None\<rparr> 0)
         ''get_proxy_status'' None fresh_page) = Inr JNull \<and>
   fst (request (web_env \<lparr>status = 200, body_text = ''pong'', body_json = None\<rparr> 0)
         ''get_proxy_status'' None fresh_page) = Inr (JStr ''pong'') \<and>
   fst (request (web_env \<lparr>status = 200, body_text = ''true'', body_json = Some (JBool True)\<rparr> 0)
         ''get_proxy_status'' None fresh_page) = Inr (JBool True) \<and>
   (\<exists>m. fst (request (web_env \<lparr>status = 500, body_text = ''null'', body_json = Some JNull\<rparr> 0)
         ''get_proxy_status'' None fresh_page) = Inl (JsError ''TypeError'' m)) \<and>
   fst (request (web_env \<lparr>status = 400, body_text = ''(an object)'',
           body_json = Some (JObj [(''error'', JStr ''bad id'')])\<rparr> 0)
         ''get_proxy_status'' None fresh_page) = Inl (Value (JStr ''bad id'')) \<and>
   fst (request (web_env \<lparr>status = 400, body_text = ''(an object)'',
           body_json = Some (JObj [(''error'', JStr [])])\<rparr> 0)
         ''get_proxy_status'' None fresh_page) = Inl (Value (JStr ''HTTP Error 400''))"
proof -
  have n: "show_nat 400 = ''400''"
    by code_simp
  note t = response_normalization [OF remote_response_call_with, of _ 0 fresh_page]
  from t [of "\<lparr>status = 204, body_text = ''ignored'', body_json = None\<rparr>"]
  have 1: "fst (request (web_env \<lparr>status = 204, body_text = ''ignored'', body_json = None\<rparr> 0)
         ''get_proxy_status'' None fresh_page) = Inr JNull"
    by (simp add: response_ok_def)
  from t [of "\<lparr>status = 200, body_text = [], body_json = None\<rparr>"]
  have 2: "fst (request (web_env \<lparr>status = 200, body_text = [], body_json = None\<rparr> 0)
         ''get_proxy_status'' None fresh_page) = Inr JNull"
    by (simp add: response_ok_def)
  from t [of "\<lparr>status = 200, body_text = ''pong'', body_json = None\<rparr>"]
  have 3: "fst (request (web_env \<lparr>status = 200, body_text = ''pong'', body_json = None\<rparr> 0)
         ''get_proxy_status'' None fresh_page) = Inr (JStr ''pong'')"
    by (simp add: response_ok_def)
  from t [of "\<lparr>status = 200, body_text = ''true'', body_json = Some (JBool True)\<rparr>"]
  have 4: "fst (request (web_env \<lparr>status = 200, body_text = ''true'', body_json = Some (JBool True)\<rparr> 0)
         ''get_proxy_status'' None fresh_page) = Inr (JBool True)"
    by (simp add: response_ok_def)
  from t [of "\<lparr>status = 500, body_text = ''null'', body_json = Some JNull\<rparr>"]
  have 5: "\<exists>m. fst (request (web_env \<lparr>status = 500, body_text = ''null'', body_json = Some JNull\<rparr> 0)
         ''get_proxy_status'' None fresh_page) = Inl (JsError ''TypeError'' m)"
    by (simp add: response_ok_def)
  from t [of "\<lparr>status = 400, body_text = ''(an object)'',
           body_json = Some (JObj [(''error'', JStr ''bad id'')])\<rparr>"]
  have 6: "fst (request (web_env \<lparr>status = 400, body_text = ''(an object)'',
           body_json = Some (JObj [(''error'', JStr ''bad id'')])\<rparr> 0)
         ''get_proxy_status'' None fresh_page) = Inl (Value (JStr ''bad id''))"
    by (simp add: response_ok_def)
  from t [of "\<lparr>status = 400, body_text = ''(an object)'',
           body_json = Some (JObj [(''error'', JStr [])])\<rparr>"]
  have 7: "fst (request (web_env \<lparr>status = 400, body_text = ''(an object)'',
           body_json = Some (JObj [(''error'', JStr [])])\<rparr> 0)
         ''get_proxy_status'' None fresh_page) = Inl (Value (JStr ''HTTP Error 400''))"
    by (simp add: response_ok_def n)
  show ?thesis
    by (intro conjI 1 2 3 4 5 6 7)
qed

text \<open>
  C8 as stated fails outside the statuses 200 to 299: a response with status 500 and an
  empty body, or with status 404 and a body that is not JSON, makes the call fail with the
  generic message.
\<close>

theorem empty_error_body_counterexample:
  "fst (request (web_env \<lparr>status = 500, body_text = [], body_json = None\<rparr> 0) ''get_proxy_status'' None fresh_page)
     = Inl (Value (JStr ''HTTP Error 500'')) \<and>
   fst (request (web_env \<lparr>status = 404, body_text = ''Not Found'', body_json = None\<rparr> 0) ''get_proxy_status'' None fresh_page)
     = Inl (Value (JStr ''HTTP Error 404''))"
proof -
  have "show_nat 500 = ''500''" "show_nat 404 = ''404''"
    by code_simp+
  then show ?thesis
    by (simp add: request_def send_def web_env_def COMMAND_MAPPING_def handle_response_def response_ok_def
        error_of_def fresh_page_def Let_def)
qed

subsection \<open>Names the table inherits\<close>

text \<open>
  A name that every object inherits is found by the lookup although the table does not
  list it: without arguments the call reaches the network with the text \<open>undefined\<close> as its
  URL, with an argument it fails before anything is sent. A name found nowhere fails as
  unmapped.
\<close>

lemma request_inherited_name:
  "fetched (snd (request (web_env no_content 0) ''constructor'' None fresh_page)) =
     [\<lparr>req_url = ''undefined'', req_method = GET,
       req_headers = [(''Content-Type'', ''application/json'')], req_body = None\<rparr>]"
  by (simp add: request_def send_def web_env_def COMMAND_MAPPING_def object_prototype_names_def
      entries_def make_headers_def handle_response_def response_ok_def no_content_def
      fresh_page_def Let_def)

lemma request_inherited_name_with_args:
  "request (web_env no_content 0) ''toString'' (Some [(''accountId'', Val ''42'')]) fresh_page =
     (Inl (JsError ''TypeError'' ''Cannot read properties of undefined (reading 'includes')''),
      fresh_page)"
  by (simp add: request_def web_env_def COMMAND_MAPPING_def object_prototype_names_def entries_def)

lemma request_unmapped:
  "fst (request (web_env no_content 0) ''no_such_command'' None fresh_page) =
     Inl (JsError ''Error'' ''Command [no_such_command] not supported in Web mode.'')"
  by (simp add: request_def web_env_def COMMAND_MAPPING_def object_prototype_names_def)

section \<open>Path substitution\<close>


lemma registry_wf: "list_all (\<lambda>(c, d). wf_template (url d)) COMMAND_MAPPING"
  by (simp add: COMMAND_MAPPING_def wf_template_def segments_def placeholder_names_def is_placeholder_def)


subsection \<open>What the encoders can emit\<close>

lemma hex_digit_in: "n < 16 \<Longrightarrow> hex_digit n \<in> hex_chars"
  unfolding hex_digit_def hex_chars_def by (rule nth_mem) simp

lemma set_pct_encode: "set (pct_encode c) \<subseteq> insert CHR ''%'' hex_chars"
proof -
  have "(of_char c :: nat) < 16 * 16"
    using nat_of_char_less_256 [of c] by simp
  then have "of_char c div 16 < (16::nat)"
    by (rule less_mult_imp_div_less)
  moreover have "of_char c mod 16 < (16::nat)"
    by simp
  ultimately show ?thesis
    by (simp add: pct_encode_def hex_digit_in)
qed

lemma set_encodeURIComponent:
  "set (encodeURIComponent s) \<subseteq> {c. uri_unreserved c} \<union> insert CHR ''%'' hex_chars"
  using set_pct_encode by (induction s) (auto simp: encodeURIComponent_def)

lemma set_form_encode:
  "set (form_encode s) \<subseteq> {c. form_safe c} \<union> insert CHR ''+'' (insert CHR ''%'' hex_chars)"
  using set_pct_encode by (induction s) (auto simp: form_encode_def)

lemma colon_not_encoded: "CHR '':'' \<notin> set (encodeURIComponent s)"
proof -
  have "CHR '':'' \<notin> {c. uri_unreserved c} \<union> insert CHR ''%'' hex_chars"
    by (simp add: uri_unreserved_def alphanumeric_def hex_chars_def)
  with set_encodeURIComponent [of s] show ?thesis by blast
qed

text \<open>No output of \<open>encodeURIComponent\<close> holds a \<open>$\<close>: \<open>replace\<close> never meets a pattern.\<close>

lemma dollar_not_encoded: "CHR ''$'' \<notin> set (encodeURIComponent s)"
proof -
  have "CHR ''$'' \<notin> {c. uri_unreserved c} \<union> insert CHR ''%'' hex_chars"
    by (simp add: uri_unreserved_def alphanumeric_def hex_chars_def)
  with set_encodeURIComponent [of s] show ?thesis by blast
qed

subsection \<open>Replacing inside a joined path\<close>

lemma join_Cons: "join sep (x # xs) = (if xs = [] then x else x @ sep # join sep xs)"
  by (cases xs) simp_all

lemma replace_skip:
  "CHR '':'' \<notin> set x \<Longrightarrow> replace (x @ t) (CHR '':'' # k) r = x @ replace t (CHR '':'' # k) r"
  by (induction x) auto

lemma includes_skip:
  "CHR '':'' \<notin> set x \<Longrightarrow> str_includes (x @ t) (CHR '':'' # k) = str_includes t (CHR '':'' # k)"
  by (induction x) auto

lemma prefix_before_slash:
  assumes "CHR ''/'' \<notin> set k"
  shows "prefix k (n @ CHR ''/'' # rest) \<longleftrightarrow> prefix k n"
proof
  assume "prefix k (n @ CHR ''/'' # rest)"
  then consider "prefix k n" | us where "k = n @ us" "prefix us (CHR ''/'' # rest)"
    by (auto simp: prefix_append)
  then show "prefix k n"
  proof cases
    case 1
    then show ?thesis .
  next
    case 2
    with assms have "us = []"
      by (cases us) auto
    with 2 show ?thesis by simp
  qed
next
  assume "prefix k n"
  then show "prefix k (n @ CHR ''/'' # rest)" by simp
qed

lemma replace_seg_Nil_iff [simp]: "replace_seg p r xs = [] \<longleftrightarrow> xs = []"
  by (cases xs) simp_all

lemma replace_join:
  assumes "colon_first segs" and "CHR ''/'' \<notin> set k" and "key_exact k segs"
  shows "replace (join (CHR ''/'') segs) (CHR '':'' # k) r = join (CHR ''/'') (replace_seg (CHR '':'' # k) r segs) \<and>
         (str_includes (join (CHR ''/'') segs) (CHR '':'' # k) \<longleftrightarrow> CHR '':'' # k \<in> set segs)"
  using assms
proof (induction segs)
  case Nil
  then show ?case by simp
next
  case (Cons x xs)
  let ?p = "CHR '':'' # k"
  let ?t = "if xs = [] then [] else CHR ''/'' # join (CHR ''/'') xs"
  let ?t' = "if xs = [] then [] else CHR ''/'' # join (CHR ''/'') (replace_seg ?p r xs)"
  have j: "join (CHR ''/'') (x # xs) = x @ ?t"
    by (simp add: join_Cons)
  from Cons.prems have cf: "colon_first xs" and ke: "key_exact k xs"
    by (auto simp: colon_first_def key_exact_def)
  note IH = Cons.IH [OF cf Cons.prems(2) ke]
  have t: "replace ?t ?p r = ?t' \<and> (str_includes ?t ?p \<longleftrightarrow> ?p \<in> set xs)"
    using IH by (cases xs) auto
  show ?case
  proof (cases "is_placeholder x")
    case False
    with Cons.prems(1) have nc: "CHR '':'' \<notin> set x"
      by (cases x) (auto simp: colon_first_def is_placeholder_def)
    then have "x \<noteq> ?p" by auto
    with nc t show ?thesis
      by (simp add: j replace_skip includes_skip) (simp add: join_Cons)
  next
    case True
    then obtain n where x: "x = CHR '':'' # n"
      by (cases x) (auto simp: is_placeholder_def)
    with Cons.prems(1) have nc: "CHR '':'' \<notin> set n"
      by (simp add: colon_first_def)
    have pre: "prefix k (n @ ?t) \<longleftrightarrow> prefix k n"
      using prefix_before_slash [OF Cons.prems(2)] by simp
    show ?thesis
    proof (cases "prefix k n")
      case True
      with Cons.prems(3) x have "k = n"
        by (simp add: key_exact_def)
      with x show ?thesis
        by (simp add: j) (simp add: join_Cons)
    next
      case False
      then have ne: "x \<noteq> ?p" using x by auto
      from False pre have np: "\<not> prefix ?p (x @ ?t)"
        using x by simp
      have "replace (x @ ?t) ?p r = CHR '':'' # replace (n @ ?t) ?p r"
        using np x by simp
      also have "\<dots> = x @ replace ?t ?p r"
        using nc x by (simp add: replace_skip)
      finally have r: "replace (x @ ?t) ?p r = x @ ?t'"
        using t by simp
      have "str_includes (x @ ?t) ?p \<longleftrightarrow> str_includes (n @ ?t) ?p"
        using np x by simp
      also have "\<dots> \<longleftrightarrow> str_includes ?t ?p"
        using nc by (simp add: includes_skip)
      finally have i: "str_includes (x @ ?t) ?p \<longleftrightarrow> ?p \<in> set xs"
        using t by simp
      from r i ne show ?thesis
        by (simp add: j) (simp add: join_Cons)
    qed
  qed
qed

lemma replace_seg_absent: "p \<notin> set segs \<Longrightarrow> replace_seg p r segs = segs"
  by (induction segs) auto


lemma set_replace_seg: "set (replace_seg p r segs) \<subseteq> insert r (set segs)"
  by (induction segs) auto

lemma not_placeholder_encoded: "\<not> is_placeholder (encodeURIComponent s)"
  using colon_not_encoded [of s] by (cases "encodeURIComponent s") (auto simp: is_placeholder_def)

lemma colon_first_replace_seg:
  "colon_first segs \<Longrightarrow> CHR '':'' \<notin> set r \<Longrightarrow> colon_first (replace_seg p r segs)"
proof -
  assume a: "colon_first segs" and r: "CHR '':'' \<notin> set r"
  have "CHR '':'' \<notin> set (tl seg)" if "seg \<in> set (replace_seg p r segs)" for seg
  proof -
    from that set_replace_seg [of p r segs] have "seg = r \<or> seg \<in> set segs" by auto
    then show ?thesis
    proof
      assume "seg = r"
      with r show ?thesis by (cases r) auto
    next
      assume "seg \<in> set segs"
      with a show ?thesis by (simp add: colon_first_def)
    qed
  qed
  then show ?thesis by (simp add: colon_first_def)
qed

lemma key_exact_replace_seg:
  "key_exact k segs \<Longrightarrow> CHR '':'' \<notin> set r \<Longrightarrow> key_exact k (replace_seg p r segs)"
  using set_replace_seg [of p r segs]
  by (auto simp: key_exact_def)

lemma distinct_replace_seg:
  "distinct (filter is_placeholder segs) \<Longrightarrow> \<not> is_placeholder r \<Longrightarrow>
   distinct (filter is_placeholder (replace_seg p r segs))"
proof (induction segs)
  case Nil
  then show ?case by simp
next
  case (Cons x xs)
  show ?case
  proof (cases "x = p")
    case True
    with Cons.prems show ?thesis by (simp split: if_splits)
  next
    case False
    have "x \<notin> set (replace_seg p r xs)" if "is_placeholder x"
    proof
      assume "x \<in> set (replace_seg p r xs)"
      with set_replace_seg [of p r xs] have "x = r \<or> x \<in> set xs" by auto
      with that Cons.prems show False by auto
    qed
    with False Cons show ?thesis by (simp split: if_splits)
  qed
qed

lemma substitute_key_join:
  assumes "colon_first segs" and "CHR ''/'' \<notin> set k" and "key_exact k segs"
  shows "substitute_key a (join (CHR ''/'') segs) k = join (CHR ''/'') (step a segs k)"
  using replace_join [OF assms]
  by (simp add: substitute_key_def step_def Let_def replace_seg_absent)

lemma substitute_fold_join:
  assumes "colon_first segs"
    and "\<forall>k\<in>set ks. CHR ''/'' \<notin> set k \<and> key_exact k segs"
  shows "foldl (substitute_key a) (join (CHR ''/'') segs) ks = join (CHR ''/'') (foldl (step a) segs ks)"
  using assms
proof (induction ks arbitrary: segs)
  case Nil
  then show ?case by simp
next
  case (Cons k ks)
  from Cons.prems have k: "CHR ''/'' \<notin> set k" "key_exact k segs"
    by simp_all
  have cf: "colon_first (step a segs k)"
    unfolding step_def using Cons.prems(1) colon_not_encoded by (rule colon_first_replace_seg)
  have ke: "\<forall>k'\<in>set ks. CHR ''/'' \<notin> set k' \<and> key_exact k' (step a segs k)"
    using Cons.prems(2) by (simp add: step_def key_exact_replace_seg colon_not_encoded)
  from Cons.IH [OF cf ke] show ?case
    by (simp add: substitute_key_join [OF Cons.prems(1) k])
qed

lemma placeholder_eq: "is_placeholder seg \<Longrightarrow> tl seg = k \<Longrightarrow> seg = CHR '':'' # k"
  by (cases seg) (auto simp: is_placeholder_def)

lemma fill_keys_Cons_other:
  "seg \<noteq> CHR '':'' # k \<Longrightarrow> fill_keys a (k # ks) seg = fill_keys a ks seg"
  by (auto simp: fill_keys_def dest: placeholder_eq)

lemma fill_keys_step:
  assumes "distinct (filter is_placeholder segs)"
  shows "map (fill_keys a ks) (step a segs k) = map (fill_keys a (k # ks)) segs"
  using assms
proof (induction segs)
  case Nil
  then show ?case by (simp add: step_def)
next
  case (Cons x xs)
  let ?r = "encodeURIComponent (js_String (property a k))"
  show ?case
  proof (cases "x = CHR '':'' # k")
    case True
    then have ph: "is_placeholder x" by (simp add: is_placeholder_def)
    with Cons.prems have "x \<notin> set xs" by auto
    then have "\<forall>seg\<in>set xs. fill_keys a (k # ks) seg = fill_keys a ks seg"
      using True by (auto intro: fill_keys_Cons_other)
    then have "map (fill_keys a ks) xs = map (fill_keys a (k # ks)) xs"
      by simp
    moreover have "fill_keys a ks ?r = ?r"
      by (simp add: fill_keys_def not_placeholder_encoded)
    moreover have "fill_keys a (k # ks) x = ?r"
      using True by (simp add: fill_keys_def is_placeholder_def)
    ultimately show ?thesis
      using True by (simp add: step_def)
  next
    case False
    from Cons.prems have "distinct (filter is_placeholder xs)"
      by (simp split: if_splits)
    from Cons.IH [OF this] False show ?thesis
      by (simp add: step_def fill_keys_Cons_other)
  qed
qed

lemma fold_step_fill:
  assumes "distinct (filter is_placeholder segs)"
  shows "foldl (step a) segs ks = map (fill_keys a ks) segs"
  using assms
proof (induction ks arbitrary: segs)
  case Nil
  then show ?case by (simp add: fill_keys_def)
next
  case (Cons k ks)
  have "distinct (filter is_placeholder (step a segs k))"
    unfolding step_def using Cons.prems not_placeholder_encoded by (rule distinct_replace_seg)
  from Cons.IH [OF this] show ?case
    by (simp add: fill_keys_step [OF Cons.prems])
qed

lemma fill_keys_all: "fill_keys a (map fst a) = fill a"
proof
  fix seg
  show "fill_keys a (map fst a) seg = fill a seg"
  proof (cases "map_of a (tl seg)")
    case None
    then have "tl seg \<notin> set (map fst a)"
      by (simp add: map_of_eq_None_iff)
    with None show ?thesis
      by (simp add: fill_keys_def fill_def)
  next
    case (Some v)
    then have "tl seg \<in> set (map fst a)"
      by (metis map_of_eq_None_iff option.distinct(1) set_map)
    with Some show ?thesis
      by (simp add: fill_keys_def fill_def property_def)
  qed
qed

lemma join_split: "join sep (split sep s) = s"
proof (induction s)
  case Nil
  then show ?case by simp
next
  case (Cons c s)
  then show ?case
    by (cases "split sep s") (auto simp: join_Cons split: if_splits)
qed

lemma substitute_path_instantiate:
  assumes "wf_template u" and "keys_fit u a"
  shows "substitute_path u (Some a) = instantiate u a"
proof -
  let ?segs = "segments u"
  from assms(1) have cf: "colon_first ?segs"
    by (simp add: wf_template_def colon_first_def list_all_iff)
  from assms(1) have "distinct (map tl (filter is_placeholder ?segs))"
    by (simp add: wf_template_def placeholder_names_def)
  then have d: "distinct (filter is_placeholder ?segs)"
    by (simp add: distinct_map)
  have ke: "\<forall>k\<in>set (map fst a). CHR ''/'' \<notin> set k \<and> key_exact k ?segs"
  proof
    fix k assume "k \<in> set (map fst a)"
    with assms(2) have s: "CHR ''/'' \<notin> set k"
      and p: "\<forall>n\<in>set (placeholder_names u). prefix k n \<longrightarrow> k = n"
      by (auto simp: keys_fit_def list_all_iff)
    have "key_exact k ?segs"
      unfolding key_exact_def
    proof (intro allI impI)
      fix n assume "CHR '':'' # n \<in> set ?segs" and "prefix k n"
      then have "n \<in> set (placeholder_names u)"
        by (force simp: placeholder_names_def is_placeholder_def)
      with p \<open>prefix k n\<close> show "k = n" by blast
    qed
    with s show "CHR ''/'' \<notin> set k \<and> key_exact k ?segs" ..
  qed
  have "substitute_path u (Some a) = foldl (substitute_key a) (join (CHR ''/'') ?segs) (map fst a)"
    by (simp add: substitute_path_def segments_def join_split)
  also have "\<dots> = join (CHR ''/'') (foldl (step a) ?segs (map fst a))"
    using cf ke by (rule substitute_fold_join)
  also have "\<dots> = instantiate u a"
    by (simp add: fold_step_fill [OF d] fill_keys_all instantiate_def)
  finally show ?thesis .
qed


subsection \<open>Reading a query string back\<close>

lemma hex_value_hex_digit: "n < 16 \<Longrightarrow> hex_value (hex_digit n) = n"
proof -
  have "\<forall>m\<in>set [0..<16]. hex_value (hex_digit m) = m"
    by code_simp
  moreover assume "n < 16"
  ultimately show ?thesis by simp
qed

lemma form_decode_plain:
  "c \<noteq> CHR ''%'' \<Longrightarrow> form_decode (c # rest) = (if c = CHR ''+'' then CHR '' '' else c) # form_decode rest"
  by (cases rest rule: form_decode.cases) simp_all

lemma form_decode_pct: "form_decode (pct_encode c @ rest) = c # form_decode rest"
proof -
  have a: "(of_char c :: nat) < 16 * 16"
    using nat_of_char_less_256 [of c] by simp
  then have h: "of_char c div 16 < (16::nat)"
    by (rule less_mult_imp_div_less)
  have l: "of_char c mod 16 < (16::nat)"
    by simp
  have "char_of (16 * (of_char c div 16) + of_char c mod 16 :: nat) = c"
    by simp
  then show ?thesis
    by (simp add: pct_encode_def hex_value_hex_digit [OF h] hex_value_hex_digit [OF l])
qed

lemma form_safe_plain: "form_safe c \<Longrightarrow> c \<noteq> CHR ''%'' \<and> c \<noteq> CHR ''+''"
  by (auto simp: form_safe_def alphanumeric_def)

lemma form_encode_Cons:
  "form_encode (c # s) =
     (if c = CHR '' '' then ''+'' else if form_safe c then [c] else pct_encode c) @ form_encode s"
  by (simp add: form_encode_def)

lemma form_decode_encode: "form_decode (form_encode s) = s"
proof (induction s)
  case Nil
  then show ?case by (simp add: form_encode_def)
next
  case (Cons c s)
  show ?case
  proof (cases "c = CHR '' ''")
    case True
    then show ?thesis
      using Cons by (simp add: form_encode_Cons form_decode_plain)
  next
    case False
    then show ?thesis
      using Cons form_safe_plain [of c]
      by (auto simp: form_encode_Cons form_decode_plain form_decode_pct)
  qed
qed

lemma separators_not_encoded:
  "CHR ''='' \<notin> set (form_encode s) \<and> CHR ''&'' \<notin> set (form_encode s)"
proof -
  have "CHR ''='' \<notin> {c. form_safe c} \<union> insert CHR ''+'' (insert CHR ''%'' hex_chars)"
    and "CHR ''&'' \<notin> {c. form_safe c} \<union> insert CHR ''+'' (insert CHR ''%'' hex_chars)"
    by (simp_all add: form_safe_def alphanumeric_def hex_chars_def)
  with set_form_encode [of s] show ?thesis by blast
qed

lemma parse_pair_encoded: "parse_pair (form_encode k @ CHR ''='' # form_encode v) = (k, v)"
proof -
  have "\<forall>c\<in>set (form_encode k). c \<noteq> CHR ''=''"
    using separators_not_encoded [of k] by auto
  then have "takeWhile (\<lambda>c. c \<noteq> CHR ''='') (form_encode k @ CHR ''='' # form_encode v) = form_encode k"
    and "dropWhile (\<lambda>c. c \<noteq> CHR ''='') (form_encode k @ CHR ''='' # form_encode v) = CHR ''='' # form_encode v"
    by (simp_all add: takeWhile_append2 dropWhile_append2)
  then show ?thesis
    by (simp add: parse_pair_def form_decode_encode)
qed

lemma split_no_sep: "sep \<notin> set x \<Longrightarrow> split sep (x @ sep # rest) = x # split sep rest"
  by (induction x) auto

lemma split_no_sep_end: "sep \<notin> set x \<Longrightarrow> split sep x = [x]"
  by (induction x) auto

lemma split_join:
  "xs \<noteq> [] \<Longrightarrow> \<forall>x\<in>set xs. sep \<notin> set x \<Longrightarrow> split sep (join sep xs) = xs"
proof (induction xs)
  case Nil
  then show ?case by simp
next
  case (Cons x xs)
  then show ?case
    by (cases "xs = []") (simp_all add: join_Cons split_no_sep split_no_sep_end)
qed

lemma params_toString_empty: "params_toString ps = [] \<longleftrightarrow> ps = []"
proof (cases ps)
  case Nil
  then show ?thesis by (simp add: params_toString_def)
next
  case (Cons p ps')
  obtain k v where "p = (k, v)" by (cases p)
  with Cons show ?thesis
    by (simp add: params_toString_def join_Cons)
qed

lemma parse_query_toString: "parse_query (params_toString ps) = ps"
proof (cases "ps = []")
  case True
  then show ?thesis by (simp add: parse_query_def params_toString_def)
next
  case False
  let ?enc = "\<lambda>(k, v). form_encode k @ CHR ''='' # form_encode v"
  have "\<forall>x\<in>set (map ?enc ps). CHR ''&'' \<notin> set x"
    using separators_not_encoded by auto
  with False have "split (CHR ''&'') (params_toString ps) = map ?enc ps"
    by (simp add: params_toString_def split_join)
  moreover have "map parse_pair (map ?enc ps) = ps"
    by (induction ps) (auto simp: parse_pair_encoded)
  ultimately show ?thesis
    using False by (simp add: parse_query_def params_toString_empty)
qed


subsection \<open>The request that reaches the network\<close>

lemma fetched_request:
  assumes "\<not> isTauri e" and "map_of COMMAND_MAPPING cmd = Some mapping"
  shows "fetched (snd (request e cmd a p)) = fetched p @ [build_request mapping a (apiKey e)]"
  using assms
  by (simp add: request_def send_def handle_response_def notify_unauthorized_def log_line_def Let_def
      split: sum.splits option.splits)

lemma in_set_join: "c \<in> set (join sep xs) \<Longrightarrow> c = sep \<or> (\<exists>x\<in>set xs. c \<in> set x)"
  by (induction xs) (auto simp: join_Cons split: if_splits)

lemma in_set_join_iff: "c \<noteq> sep \<Longrightarrow> c \<in> set (join sep xs) \<longleftrightarrow> (\<exists>x\<in>set xs. c \<in> set x)"
  by (induction xs) (auto simp: join_Cons split: if_splits)

lemma colon_in_fill:
  assumes "CHR '':'' \<notin> set (tl seg)"
  shows "CHR '':'' \<in> set (fill a seg) \<longleftrightarrow> is_placeholder seg \<and> map_of a (tl seg) = None"
proof (cases "is_placeholder seg")
  case True
  then have "CHR '':'' \<in> set seg"
    by (cases seg) (auto simp: is_placeholder_def)
  with True show ?thesis
    by (auto simp: fill_def colon_not_encoded split: option.splits)
next
  case False
  with assms have "CHR '':'' \<notin> set seg"
    by (cases seg) (auto simp: is_placeholder_def)
  with False show ?thesis
    by (simp add: fill_def)
qed

lemma unresolved_iff:
  assumes "wf_template u"
  shows "CHR '':'' \<in> set (instantiate u a) \<longleftrightarrow> (\<exists>n\<in>set (placeholder_names u). n \<notin> fst ` set a)"
proof -
  from assms have cf: "\<forall>seg\<in>set (segments u). CHR '':'' \<notin> set (tl seg)"
    by (simp add: wf_template_def list_all_iff)
  have "CHR '':'' \<in> set (instantiate u a) \<longleftrightarrow>
      (\<exists>seg\<in>set (segments u). CHR '':'' \<in> set (fill a seg))"
    by (simp add: instantiate_def in_set_join_iff)
  also have "\<dots> \<longleftrightarrow> (\<exists>seg\<in>set (segments u). is_placeholder seg \<and> map_of a (tl seg) = None)"
    using cf by (simp add: colon_in_fill)
  also have "\<dots> \<longleftrightarrow> (\<exists>n\<in>set (placeholder_names u). n \<notin> fst ` set a)"
    by (auto simp: placeholder_names_def map_of_eq_None_iff)
  finally show ?thesis .
qed

lemma registry_template:
  "map_of COMMAND_MAPPING cmd = Some mapping \<Longrightarrow> wf_template (url mapping)"
  using registry_wf by (auto simp: list_all_iff dest: map_of_SomeD)

lemma req_url_build_request:
  "req_url (build_request mapping (Some kvs) k) =
     substitute_path (url mapping) (Some kvs) @
     (if meth mapping = POST \<or> query_params kvs = [] then []
      else CHR ''?'' # params_toString (query_params kvs))"
  by (cases "meth mapping") (simp_all add: build_request_def entries_def Let_def params_toString_empty)

lemma req_body_build_request:
  "req_body (build_request mapping a k) = (if meth mapping = POST then a else None)"
  by (cases "meth mapping"; cases a) (simp_all add: build_request_def Let_def)

text \<open>
  C1 (as amended). Take a command of the registry, called in the browser with an argument
  object whose keys fit the template. The request handed to \<open>fetch\<close> has the template's
  path with every placeholder whose name is a key replaced by the encoded text of that
  key's value, and every other placeholder left as written. The argument object is not
  changed by the substitution: for GET and DELETE the query string is built from all of its
  entries that are neither null nor undefined, for POST the body is the whole object. The
  path holds a colon exactly when some placeholder's name is not a key: such a placeholder
  does reach the network.
\<close>

theorem placeholder_substitution:
  assumes "map_of COMMAND_MAPPING cmd = Some mapping"
    and "keys_fit (url mapping) kvs"
    and "\<not> isTauri e"
  shows "fetched (snd (request e cmd (Some kvs) p)) =
           fetched p @ [build_request mapping (Some kvs) (apiKey e)] \<and>
         req_url (build_request mapping (Some kvs) (apiKey e)) =
           instantiate (url mapping) kvs @
           (if meth mapping = POST \<or> query_params kvs = [] then []
            else CHR ''?'' # params_toString (query_params kvs)) \<and>
         req_body (build_request mapping (Some kvs) (apiKey e)) =
           (if meth mapping = POST then Some kvs else None) \<and>
         (CHR '':'' \<in> set (instantiate (url mapping) kvs) \<longleftrightarrow>
            (\<exists>n\<in>set (placeholder_names (url mapping)). n \<notin> fst ` set kvs))"
proof -
  from assms(1) have wf: "wf_template (url mapping)"
    by (rule registry_template)
  from wf assms(2) have "substitute_path (url mapping) (Some kvs) = instantiate (url mapping) kvs"
    by (rule substitute_path_instantiate)
  then show ?thesis
    using fetched_request [OF assms(3,1)] unresolved_iff [OF wf]
    by (simp add: req_url_build_request req_body_build_request)
qed

lemma lookup_delete_account:
  "map_of COMMAND_MAPPING ''delete_account'' = Some \<lparr>url = ''/api/accounts/:accountId'', meth = DELETE\<rparr>"
  by (simp add: COMMAND_MAPPING_def)

lemma lookup_get_proxy_status:
  "map_of COMMAND_MAPPING ''get_proxy_status'' = Some \<lparr>url = ''/api/proxy/status'', meth = GET\<rparr>"
  by (simp add: COMMAND_MAPPING_def)

lemma segments_delete_account:
  "segments ''/api/accounts/:accountId'' = [[], ''api'', ''accounts'', '':accountId'']"
  by (simp add: segments_def)

lemma encode_42: "encodeURIComponent ''42'' = ''42''" "form_encode ''42'' = ''42''"
  "form_encode ''accountId'' = ''accountId''"
  by (simp_all add: encodeURIComponent_def form_encode_def uri_unreserved_def form_safe_def alphanumeric_def)

theorem placeholder_substitution_witness:
  "fetched (snd (request (web_env no_content 0) ''delete_account'' (Some [(''accountId'', Val ''42'')]) fresh_page))
     = [build_request \<lparr>url = ''/api/accounts/:accountId'', meth = DELETE\<rparr> (Some [(''accountId'', Val ''42'')]) None] \<and>
   req_url (build_request \<lparr>url = ''/api/accounts/:accountId'', meth = DELETE\<rparr> (Some [(''accountId'', Val ''42'')]) None)
     = ''/api/accounts/42?accountId=42'' \<and>
   req_method (build_request \<lparr>url = ''/api/accounts/:accountId'', meth = DELETE\<rparr> (Some [(''accountId'', Val ''42'')]) None)
     = DELETE \<and>
   CHR '':'' \<notin> set ''/api/accounts/42''"
proof -
  have k: "keys_fit (url \<lparr>url = ''/api/accounts/:accountId'', meth = DELETE\<rparr>) [(''accountId'', Val ''42'')]"
    by (simp add: keys_fit_def placeholder_names_def segments_delete_account is_placeholder_def)
  have n: "\<not> isTauri (web_env no_content 0)"
    by (simp add: web_env_def)
  have i: "instantiate ''/api/accounts/:accountId'' [(''accountId'', Val ''42'')] = ''/api/accounts/42''"
    by (simp add: instantiate_def segments_delete_account fill_def is_placeholder_def encode_42)
  have q: "query_params [(''accountId'', Val ''42'')] = [(''accountId'', ''42'')]"
    "params_toString [(''accountId'', ''42'')] = ''accountId=42''"
    by (simp_all add: params_toString_def query_params_def encode_42)
  have a: "apiKey (web_env no_content 0) = None"
    by (simp add: web_env_def)
  have m: "req_method (build_request \<lparr>url = ''/api/accounts/:accountId'', meth = DELETE\<rparr> (Some [(''accountId'', Val ''42'')]) None)
     = DELETE"
    by (simp add: build_request_def Let_def)
  show ?thesis
    using placeholder_substitution [OF lookup_delete_account k n, of fresh_page]
    by (simp add: i q a m fresh_page_def)
qed

text \<open>
  C1 as stated fails: with an empty argument object \<open>delete_account\<close> sends the template
  itself, placeholder included; and a key that is a proper prefix of the placeholder's name
  takes the placeholder's place, so that the value of \<open>accountId\<close> is not what the path
  holds.
\<close>

theorem unresolved_placeholder_counterexample:
  "fetched (snd (request (web_env no_content 0) ''delete_account'' (Some []) fresh_page))
     = [\<lparr>req_url = ''/api/accounts/:accountId'', req_method = DELETE,
         req_headers = [(''Content-Type'', ''application/json'')], req_body = None\<rparr>] \<and>
   fetched (snd (request (web_env no_content 0) ''delete_account''
       (Some [(''account'', Val ''x''), (''accountId'', Val ''42'')]) fresh_page))
     = [\<lparr>req_url = ''/api/accounts/xId?account=x&accountId=42'', req_method = DELETE,
         req_headers = [(''Content-Type'', ''application/json'')], req_body = None\<rparr>]"
proof -
  have n: "\<not> isTauri (web_env no_content 0)"
    by (simp add: web_env_def)
  have a: "apiKey (web_env no_content 0) = None"
    by (simp add: web_env_def)
  have e: "encodeURIComponent ''x'' = ''x''" "form_encode ''x'' = ''x''" "form_encode ''account'' = ''account''"
    by (simp_all add: encodeURIComponent_def form_encode_def uri_unreserved_def form_safe_def alphanumeric_def)
  have 1: "build_request \<lparr>url = ''/api/accounts/:accountId'', meth = DELETE\<rparr> (Some []) None =
      \<lparr>req_url = ''/api/accounts/:accountId'', req_method = DELETE,
         req_headers = [(''Content-Type'', ''application/json'')], req_body = None\<rparr>"
    by (simp add: build_request_def substitute_path_def entries_def query_params_def
        params_toString_def make_headers_def Let_def)
  have 2: "build_request \<lparr>url = ''/api/accounts/:accountId'', meth = DELETE\<rparr>
       (Some [(''account'', Val ''x''), (''accountId'', Val ''42'')]) None =
      \<lparr>req_url = ''/api/accounts/xId?account=x&accountId=42'', req_method = DELETE,
         req_headers = [(''Content-Type'', ''application/json'')], req_body = None\<rparr>"
    by (simp add: build_request_def substitute_path_def substitute_key_def property_def entries_def
        query_params_def params_toString_def make_headers_def Let_def e encode_42)
  show ?thesis
    by (simp add: fetched_request [OF n lookup_delete_account] a 1 2 fresh_page_def)
qed

section \<open>The query string\<close>


lemma hex_chars_alphanumeric: "c \<in> hex_chars \<Longrightarrow> alphanumeric c"
  by (auto simp: hex_chars_def alphanumeric_def)

lemma form_encode_chars:
  "c \<in> set (form_encode s) \<Longrightarrow> alphanumeric c \<or> c \<in> set ''*-._+%''"
proof -
  assume "c \<in> set (form_encode s)"
  with set_form_encode [of s]
  have "form_safe c \<or> c = CHR ''+'' \<or> c = CHR ''%'' \<or> c \<in> hex_chars"
    by auto
  then show ?thesis
    using hex_chars_alphanumeric [of c] by (auto simp: form_safe_def)
qed

lemma params_toString_chars:
  assumes "c \<in> set (params_toString ps)"
  shows "alphanumeric c \<or> c \<in> set ''*-._+%=&''"
proof -
  from assms in_set_join [of c "CHR ''&''"]
  consider "c = CHR ''&''"
    | k v where "(k, v) \<in> set ps" "c \<in> set (form_encode k @ CHR ''='' # form_encode v)"
    by (fastforce simp: params_toString_def)
  then show ?thesis
  proof cases
    case 1
    then show ?thesis by simp
  next
    case 2
    then have "c \<in> set (form_encode k) \<or> c = CHR ''='' \<or> c \<in> set (form_encode v)"
      by auto
    then show ?thesis
      using form_encode_chars [of c k] form_encode_chars [of c v] by auto
  qed
qed

text \<open>
  C7. For a GET or DELETE descriptor and an argument object, the URL of the request is the
  substituted path, followed by \<open>?\<close> and the query string when at least one entry is
  neither null nor undefined, and by nothing otherwise. Read back, the query string gives
  exactly the entries of the argument object that are neither null nor undefined, each with
  the text of its value, in their order. Of an encoded name or value only letters, digits
  and \<open>*-._+%\<close> can occur in the URL, so that \<open>&\<close>, \<open>=\<close>, \<open>?\<close>, \<open>#\<close>, \<open>/\<close>, the space and
  every other byte appear percent-encoded (the space as \<open>+\<close>). Without an argument object
  the URL is the template itself, and such a request never has a body. In the browser this
  request is the one handed to \<open>fetch\<close>.
\<close>

theorem query_string_construction:
  assumes "meth mapping = GET \<or> meth mapping = DELETE"
  shows "req_url (build_request mapping (Some kvs) k) =
           substitute_path (url mapping) (Some kvs) @
           (if query_params kvs = [] then [] else CHR ''?'' # params_toString (query_params kvs)) \<and>
         parse_query (params_toString (query_params kvs)) =
           map (\<lambda>(key, v). (key, js_String v)) (filter (\<lambda>(key, v). v \<noteq> Undefined \<and> v \<noteq> Null) kvs) \<and>
         (\<forall>c\<in>set (params_toString (query_params kvs)). alphanumeric c \<or> c \<in> set ''*-._+%=&'') \<and>
         (\<forall>c\<in>set (form_encode s). alphanumeric c \<or> c \<in> set ''*-._+%'') \<and>
         req_url (build_request mapping None k) = url mapping \<and>
         req_body (build_request mapping (Some kvs) k) = None \<and>
         (\<not> isTauri e \<and> map_of COMMAND_MAPPING cmd = Some mapping \<longrightarrow>
            fetched (snd (request e cmd a p)) = fetched p @ [build_request mapping a (apiKey e)])"
proof (intro conjI ballI impI)
  show "fetched (snd (request e cmd a p)) = fetched p @ [build_request mapping a (apiKey e)]"
    if "\<not> isTauri e \<and> map_of COMMAND_MAPPING cmd = Some mapping"
    using that by (simp add: fetched_request)
  show "req_url (build_request mapping None k) = url mapping"
    by (simp add: build_request_def substitute_path_def Let_def)
  show "req_url (build_request mapping (Some kvs) k) =
           substitute_path (url mapping) (Some kvs) @
           (if query_params kvs = [] then [] else CHR ''?'' # params_toString (query_params kvs))"
    using assms by (auto simp: req_url_build_request)
  show "req_body (build_request mapping (Some kvs) k) = None"
    using assms by (auto simp: req_body_build_request)
  show "parse_query (params_toString (query_params kvs)) =
           map (\<lambda>(key, v). (key, js_String v)) (filter (\<lambda>(key, v). v \<noteq> Undefined \<and> v \<noteq> Null) kvs)"
    by (simp add: parse_query_toString) (simp add: query_params_def)
  show "alphanumeric c \<or> c \<in> set ''*-._+%=&''" if "c \<in> set (params_toString (query_params kvs))" for c
    using that by (rule params_toString_chars)
  show "alphanumeric c \<or> c \<in> set ''*-._+%''" if "c \<in> set (form_encode s)" for c
    using that by (rule form_encode_chars)
qed

lemma encode_reserved:
  "form_encode ''a b&c=d/e'' = ''a+b%26c%3Dd%2Fe''" "form_encode ''q'' = ''q''" "form_encode ''z'' = ''z''"
  "form_encode [] = []"
  by (simp_all add: form_encode_def form_safe_def alphanumeric_def pct_encode_def hex_digit_def)

theorem query_string_construction_witness:
  "req_url (build_request \<lparr>url = ''/api/logs'', meth = GET\<rparr>
      (Some [(''q'', Val ''a b&c=d/e''), (''n'', Null), (''u'', Undefined), (''z'', Val [])]) None)
     = ''/api/logs?q=a+b%26c%3Dd%2Fe&z='' \<and>
   parse_query ''q=a+b%26c%3Dd%2Fe&z='' = [(''q'', ''a b&c=d/e''), (''z'', [])] \<and>
   req_url (build_request \<lparr>url = ''/api/proxy/status'', meth = GET\<rparr> None None) = ''/api/proxy/status'' \<and>
   req_url (build_request \<lparr>url = ''/api/proxy/status'', meth = GET\<rparr> (Some [(''n'', Null)]) None)
     = ''/api/proxy/status'' \<and>
   fetched (snd (request (web_env no_content 0) ''get_proxy_status'' None fresh_page))
     = [\<lparr>req_url = ''/api/proxy/status'', req_method = GET,
         req_headers = [(''Content-Type'', ''application/json'')], req_body = None\<rparr>]"
proof -
  have g: "meth \<lparr>url = u, meth = GET\<rparr> = GET \<or> meth \<lparr>url = u, meth = GET\<rparr> = DELETE" for u
    by simp
  have q: "query_params [(''q'', Val ''a b&c=d/e''), (''n'', Null), (''u'', Undefined), (''z'', Val [])]
      = [(''q'', ''a b&c=d/e''), (''z'', [])]"
    "query_params [(''n'', Null)] = []"
    by (simp_all add: query_params_def)
  have t: "params_toString [(''q'', ''a b&c=d/e''), (''z'', [])] = ''q=a+b%26c%3Dd%2Fe&z=''"
    by (simp add: params_toString_def encode_reserved)
  have s: "substitute_path ''/api/logs''
      (Some [(''q'', Val ''a b&c=d/e''), (''n'', Null), (''u'', Undefined), (''z'', Val [])]) = ''/api/logs''"
    "substitute_path ''/api/proxy/status'' (Some [(''n'', Null)]) = ''/api/proxy/status''"
    by (simp_all add: substitute_path_def substitute_key_def Let_def)
  note logs = query_string_construction [OF g, of "''/api/logs''"
        "[(''q'', Val ''a b&c=d/e''), (''n'', Null), (''u'', Undefined), (''z'', Val [])]" None "[]"]
  note stat = query_string_construction [OF g, of "''/api/proxy/status''" "[(''n'', Null)]" None "[]"
      "web_env no_content 0" "''get_proxy_status''" None fresh_page]
  from logs have 1: "req_url (build_request \<lparr>url = ''/api/logs'', meth = GET\<rparr>
      (Some [(''q'', Val ''a b&c=d/e''), (''n'', Null), (''u'', Undefined), (''z'', Val [])]) None)
     = ''/api/logs?q=a+b%26c%3Dd%2Fe&z=''"
    by (simp add: q t s)
  from logs have 2: "parse_query ''q=a+b%26c%3Dd%2Fe&z='' = [(''q'', ''a b&c=d/e''), (''z'', [])]"
    by (simp add: q t)
  from stat have 3: "req_url (build_request \<lparr>url = ''/api/proxy/status'', meth = GET\<rparr> None None) = ''/api/proxy/status''"
    by simp
  from stat have 4: "req_url (build_request \<lparr>url = ''/api/proxy/status'', meth = GET\<rparr> (Some [(''n'', Null)]) None)
     = ''/api/proxy/status''"
    by (simp add: q s)
  have b: "build_request \<lparr>url = ''/api/proxy/status'', meth = GET\<rparr> None None =
      \<lparr>req_url = ''/api/proxy/status'', req_method = GET,
         req_headers = [(''Content-Type'', ''application/json'')], req_body = None\<rparr>"
    by (simp add: build_request_def substitute_path_def make_headers_def Let_def)
  from stat have 5: "fetched (snd (request (web_env no_content 0) ''get_proxy_status'' None fresh_page))
     = [\<lparr>req_url = ''/api/proxy/status'', req_method = GET,
         req_headers = [(''Content-Type'', ''application/json'')], req_body = None\<rparr>]"
    by (simp add: lookup_get_proxy_status web_env_def fresh_page_def b)
  show ?thesis
    by (intro conjI 1 2 3 4 5)
qed

end
